theory Spec2Isabelle
  imports Complex_Main "HOL-Library.Product_Lexorder" "HOL-Library.Multiset"
begin

section \<open>Year event loss tables (cattbl/yelt.py)\<close>

text \<open>
  A shallow embedding of the accessor class \<open>YearEventLossTable\<close> of
  \<^verbatim>\<open>src/cattbl/yelt.py\<close>. The pandas and numpy primitives the class calls
  (\<open>rank\<close>, \<open>sort_values\<close>, \<open>drop_duplicates\<close>, \<open>groupby\<close>, \<open>clip\<close>,
  \<open>np.interp\<close>) are written out as list functions following their documented
  behaviour. Losses and frequencies are real numbers; IEEE rounding is not modelled.
  The one non-finite float the class produces on purpose, NaN, is a value of its own.
  The keyword arguments that the methods only forward (to \<open>rank\<close>, to \<open>to_ef_curve\<close>)
  are left at their defaults.
\<close>

subsection \<open>Python exceptions\<close>

datatype error =
    AttributeError string
  | TypeError string
  | AssertionError string
  | IndexError string

subsection \<open>The pandas series handed to the accessor\<close>

text \<open>
  A column carries its dtype in its constructor. The bool dtype is numeric for
  \<open>pd.api.types.is_numeric_dtype\<close> and not an integer for \<open>is_integer_dtype\<close>.
\<close>

datatype column =
    IntCol "int list"
  | FloatCol "real list"
  | BoolCol "bool list"
  | ObjCol "string list"

datatype cell = IntV int | FloatV real | BoolV bool | ObjV string

fun cells :: "column \<Rightarrow> cell list" where
  "cells (IntCol xs) = map IntV xs"
| "cells (FloatCol xs) = map FloatV xs"
| "cells (BoolCol xs) = map BoolV xs"
| "cells (ObjCol xs) = map ObjV xs"

fun is_integer_dtype :: "column \<Rightarrow> bool" where
  "is_integer_dtype (IntCol _) = True"
| "is_integer_dtype _ = False"

fun is_numeric_dtype :: "column \<Rightarrow> bool" where
  "is_numeric_dtype (ObjCol _) = False"
| "is_numeric_dtype _ = True"

fun dtype_str :: "column \<Rightarrow> string" where
  "dtype_str (IntCol _) = ''int64''"
| "dtype_str (FloatCol _) = ''float64''"
| "dtype_str (BoolCol _) = ''bool''"
| "dtype_str (ObjCol _) = ''object''"

definition quoted :: "string \<Rightarrow> string" where
  "quoted s = [CHR 0x27] @ s @ [CHR 0x27]"

fun dtype_repr :: "column \<Rightarrow> string" where
  "dtype_repr (ObjCol xs) = ''dtype('' @ quoted ''O'' @ '')''"
| "dtype_repr c = ''dtype('' @ quoted (dtype_str c) @ '')''"

fun join_comma :: "string list \<Rightarrow> string" where
  "join_comma [] = []"
| "join_comma [s] = s"
| "join_comma (s # ss) = s @ '', '' @ join_comma ss"

text \<open>
  A series: the levels of its index (name and column, in level order), its values and
  its \<open>attrs\<close> dictionary. The entry of \<open>attrs\<close> the class reads, \<open>n_yrs\<close>, is an
  integer number of years.
\<close>

record series =
  index :: "(string \<times> column) list"
  vals :: column
  attrs :: "string \<rightharpoonup> int"

definition index_names :: "series \<Rightarrow> string list" where
  "index_names obj = map fst (index obj)"

definition levels :: "series \<Rightarrow> column list" where
  "levels obj = map snd (index obj)"

definition nrows :: "series \<Rightarrow> nat" where
  "nrows obj = length (cells (vals obj))"

text \<open>The key of row \<open>i\<close> is its entry in every level.\<close>

definition index_keys :: "series \<Rightarrow> cell list list" where
  "index_keys obj = map (\<lambda>i. map (\<lambda>c. cells c ! i) (levels obj)) [0..<nrows obj]"

definition is_unique :: "series \<Rightarrow> bool" where
  "is_unique obj = distinct (index_keys obj)"

definition COL_YEAR :: string where "COL_YEAR = ''Year''"
definition COL_EVENT :: string where "COL_EVENT = ''EventID''"
definition COL_DAY :: string where "COL_DAY = ''DayOfYear''"
definition COL_LOSS :: string where "COL_LOSS = ''Loss''"

definition INDEX_NAMES :: "string list" where
  "INDEX_NAMES = [COL_YEAR, COL_DAY, COL_EVENT]"

text \<open>
  \<open>index.get_level_values(name)\<close>: the entries of the level of that name. The
  validator reads it only after the integer check has passed.
\<close>

definition get_level_values :: "series \<Rightarrow> string \<Rightarrow> int list" where
  "get_level_values obj name =
     (case map_of (index obj) name of Some (IntCol ys) \<Rightarrow> ys | _ \<Rightarrow> [])"

text \<open>
  \<open>Index.min()\<close> and \<open>Index.max()\<close> of an empty index are NaN, and every comparison
  with NaN is false: \<open>None\<close> stands for NaN here.
\<close>

definition index_min :: "int list \<Rightarrow> int option" where
  "index_min ys = (if ys = [] then None else Some (Min (set ys)))"

definition index_max :: "int list \<Rightarrow> int option" where
  "index_max ys = (if ys = [] then None else Some (Max (set ys)))"

definition nan_less :: "int option \<Rightarrow> int \<Rightarrow> bool" where
  "nan_less a b = (case a of None \<Rightarrow> False | Some x \<Rightarrow> x < b)"

definition nan_greater :: "int option \<Rightarrow> int \<Rightarrow> bool" where
  "nan_greater a b = (case a of None \<Rightarrow> False | Some x \<Rightarrow> x > b)"

subsection \<open>\<open>_validate\<close> and \<open>__init__\<close>\<close>

definition msg_levels :: string where
  "msg_levels = ''Expecting 3 index levels''"

definition msg_names :: string where
  "msg_names = ''Expecting index names ['Year', 'DayOfYear', 'EventID']''"

definition msg_int :: "series \<Rightarrow> string" where
  "msg_int obj = ''Indices must all be integer types. Currently: '' @
     ''['' @ join_comma (map dtype_repr (levels obj)) @ '']''"

definition msg_numeric :: "series \<Rightarrow> string" where
  "msg_numeric obj = ''Series should be numeric. It is '' @ dtype_str (vals obj)"

definition msg_n_yrs :: string where
  "msg_n_yrs = ''Must have 'n_yrs' in the series attrs''"

definition msg_unique :: string where
  "msg_unique = ''Combinations of ['Year', 'DayOfYear', 'EventID'] not unique''"

definition msg_range :: string where
  "msg_range = ''Years in index are out of range 1,n_yrs''"

definition validate :: "series \<Rightarrow> error + unit" where
  "validate obj =
     (if length (index_names obj) \<noteq> 3 then Inl (AttributeError msg_levels)
      else if \<not> list_all (\<lambda>c. c \<in> set (index_names obj)) INDEX_NAMES
        then Inl (AttributeError msg_names)
      else if \<not> list_all is_integer_dtype (levels obj)
        then Inl (TypeError (msg_int obj))
      else if \<not> is_numeric_dtype (vals obj)
        then Inl (TypeError (msg_numeric obj))
      else case attrs obj ''n_yrs'' of
        None \<Rightarrow> Inl (AttributeError msg_n_yrs)
      | Some n \<Rightarrow>
          if \<not> is_unique obj then Inl (AttributeError msg_unique)
          else let years = get_level_values obj COL_YEAR in
            if nan_less (index_min years) 1 \<or> nan_greater (index_max years) n
            then Inl (AttributeError msg_range)
            else Inr ())"

text \<open>\<open>__init__\<close>: validate, then keep the object itself.\<close>

definition init :: "series \<Rightarrow> error + series" where
  "init pandas_obj =
     (case validate pandas_obj of Inl e \<Rightarrow> Inl e | Inr _ \<Rightarrow> Inr pandas_obj)"

subsection \<open>The invariants of a year event loss table, as the specification lists them\<close>

definition names_ok :: "series \<Rightarrow> bool" where
  "names_ok obj \<longleftrightarrow>
     length (index obj) = 3 \<and>
     set (index_names obj) = {''Year'', ''EventID'', ''DayOfYear''}"

definition keys_integer :: "series \<Rightarrow> bool" where
  "keys_integer obj \<longleftrightarrow> (\<forall>c \<in> set (levels obj). is_integer_dtype c)"

definition loss_numeric :: "series \<Rightarrow> bool" where
  "loss_numeric obj \<longleftrightarrow> is_numeric_dtype (vals obj)"

definition has_n_yrs :: "series \<Rightarrow> bool" where
  "has_n_yrs obj \<longleftrightarrow> ''n_yrs'' \<in> dom (attrs obj)"

definition keys_unique :: "series \<Rightarrow> bool" where
  "keys_unique obj \<longleftrightarrow> distinct (index_keys obj)"

definition years_in_range :: "series \<Rightarrow> bool" where
  "years_in_range obj \<longleftrightarrow>
     (\<forall>n. attrs obj ''n_yrs'' = Some n \<longrightarrow>
        (\<forall>y \<in> set (get_level_values obj ''Year''). 1 \<le> y \<and> y \<le> n))"

definition yelt_invariants :: "series \<Rightarrow> bool" where
  "yelt_invariants obj \<longleftrightarrow>
     names_ok obj \<and> keys_integer obj \<and> loss_numeric obj \<and> has_n_yrs obj \<and>
     keys_unique obj \<and> years_in_range obj"

subsection \<open>The table behind a validated series\<close>

text \<open>
  The methods of the accessor read \<open>self._obj\<close>, a series that has passed the
  validator: rows of (Year, EventID, DayOfYear) with a loss each, and the number of
  years \<open>n_yrs\<close>. The methods below take that table.
\<close>

record loss_record =
  year :: int
  event_id :: int
  day_of_year :: int
  loss :: real

record yelt =
  recs :: "loss_record list"
  n_yrs :: int

definition rec_key :: "loss_record \<Rightarrow> int \<times> int \<times> int" where
  "rec_key r = (year r, event_id r, day_of_year r)"

definition valid_yelt :: "yelt \<Rightarrow> bool" where
  "valid_yelt t \<longleftrightarrow>
     distinct (map rec_key (recs t)) \<and>
     (\<forall>r \<in> set (recs t). 1 \<le> year r \<and> year r \<le> n_yrs t)"

fun float_values :: "column \<Rightarrow> real list" where
  "float_values (IntCol xs) = map real_of_int xs"
| "float_values (FloatCol xs) = xs"
| "float_values (BoolCol xs) = map (\<lambda>b. if b then 1 else 0) xs"
| "float_values (ObjCol xs) = []"

definition yelt_of :: "series \<Rightarrow> yelt" where
  "yelt_of obj =
     \<lparr>recs = map (\<lambda>i.
         \<lparr>year = get_level_values obj COL_YEAR ! i,
          event_id = get_level_values obj COL_EVENT ! i,
          day_of_year = get_level_values obj COL_DAY ! i,
          loss = float_values (vals obj) ! i\<rparr>) [0..<nrows obj],
      n_yrs = (case attrs obj ''n_yrs'' of Some n \<Rightarrow> n | None \<Rightarrow> 0)\<rparr>"

definition wf_series :: "series \<Rightarrow> bool" where
  "wf_series obj \<longleftrightarrow> (\<forall>c \<in> set (levels obj). length (cells c) = nrows obj)"

subsection \<open>\<open>to_ylt\<close>\<close>

text \<open>
  \<open>groupby('Year')\<close> lists the years that occur, in ascending order; \<open>max()\<close> and
  \<open>sum()\<close> reduce the losses of each year.
\<close>

definition group_years :: "loss_record list \<Rightarrow> int list" where
  "group_years rs = sort (remdups (map year rs))"

definition year_losses :: "int \<Rightarrow> loss_record list \<Rightarrow> real list" where
  "year_losses y rs = map loss (filter (\<lambda>r. year r = y) rs)"

definition to_ylt :: "bool \<Rightarrow> yelt \<Rightarrow> (int \<times> real) list" where
  "to_ylt is_occurrence t =
     map (\<lambda>y. (y, if is_occurrence then Max (set (year_losses y (recs t)))
                  else sum_list (year_losses y (recs t))))
       (group_years (recs t))"

subsection \<open>\<open>exfreq\<close> and \<open>to_ef_curve\<close>\<close>

text \<open>
  \<open>rank(ascending=False, method='min')\<close>: one more than the number of strictly
  larger values, so that equal values share the smallest rank of their group.
\<close>

definition rank_desc_min :: "real list \<Rightarrow> real \<Rightarrow> nat" where
  "rank_desc_min vs v = 1 + length (filter (\<lambda>w. w > v) vs)"

definition exfreq :: "yelt \<Rightarrow> real list" where
  "exfreq t =
     map (\<lambda>r. real (rank_desc_min (map loss (recs t)) (loss r)) / real_of_int (n_yrs t))
       (recs t)"

text \<open>
  \<open>sort_values(by=['Loss', 'ExFreq', 'Year', 'DayOfYear'],
  ascending=(False, True, False, False))\<close> is a stable sort on the four columns; a
  descending column is compared through its negation.
\<close>

definition ef_sort_key :: "loss_record \<times> real \<Rightarrow> real \<times> real \<times> int \<times> int" where
  "ef_sort_key row = (- loss (fst row), snd row, - year (fst row), - day_of_year (fst row))"

definition ef_sorted :: "yelt \<Rightarrow> (loss_record \<times> real) list" where
  "ef_sorted t = sort_key ef_sort_key (zip (recs t) (exfreq t))"

text \<open>\<open>drop_duplicates()\<close> keeps the first of equal rows.\<close>

fun dedup_from :: "'a list \<Rightarrow> 'a list \<Rightarrow> 'a list" where
  "dedup_from seen [] = []"
| "dedup_from seen (x # xs) =
     (if x \<in> set seen then dedup_from seen xs else x # dedup_from (x # seen) xs)"

definition drop_duplicates :: "'a list \<Rightarrow> 'a list" where
  "drop_duplicates xs = dedup_from [] xs"

text \<open>\<open>drop(INDEX_NAMES, axis=1)\<close> leaves the columns Loss and ExFreq.\<close>

definition drop_index :: "loss_record \<times> real \<Rightarrow> real \<times> real" where
  "drop_index row = (loss (fst row), snd row)"

text \<open>
  The frame \<open>to_ef_curve\<close> returns, its rows listed by their \<open>Order\<close> position
  (\<open>reset_index(drop=True)\<close> numbers them from zero): with the key columns when
  \<open>keep_index\<close> is set, else rows of (Loss, ExFreq).
\<close>

datatype frame =
    Indexed "(loss_record \<times> real) list"
  | Plain "(real \<times> real) list"

definition plain_curve :: "yelt \<Rightarrow> (real \<times> real) list" where
  "plain_curve t = drop_duplicates (map drop_index (ef_sorted t))"

definition to_ef_curve :: "bool \<Rightarrow> yelt \<Rightarrow> frame" where
  "to_ef_curve keep_index t =
     (if \<not> keep_index then Plain (plain_curve t) else Indexed (ef_sorted t))"

definition col_Loss :: "(real \<times> real) list \<Rightarrow> real list" where
  "col_Loss rows = map fst rows"

definition col_ExFreq :: "(real \<times> real) list \<Rightarrow> real list" where
  "col_ExFreq rows = map snd rows"

text \<open>The order of the rows in the specification's words.\<close>

definition ef_before :: "loss_record \<times> real \<Rightarrow> loss_record \<times> real \<Rightarrow> bool" where
  "ef_before a b \<longleftrightarrow>
     loss (fst a) > loss (fst b) \<or>
     (loss (fst a) = loss (fst b) \<and>
       (snd a < snd b \<or>
       (snd a = snd b \<and>
         (year (fst a) > year (fst b) \<or>
         (year (fst a) = year (fst b) \<and> day_of_year (fst a) \<ge> day_of_year (fst b))))))"

subsection \<open>\<open>loss_at_rp\<close>\<close>

datatype npfloat = NaN | Val real

text \<open>
  \<open>np.interp(x, xp, fp, left, right)\<close> on sample points \<open>xp\<close> in increasing order.
  With two or more samples NaN stays NaN, a point left of the samples gives \<open>left\<close>,
  right of them \<open>right\<close>, a point in the segment from \<open>xp[j]\<close> to \<open>xp[j+1]\<close> the
  value \<open>slope * (x - xp[j]) + fp[j]\<close>. With one sample numpy takes a branch of its
  own, \<open>(x < xp[0]) ? left : ((x > xp[0]) ? right : fp[0])\<close>, without a test for NaN:
  both comparisons are false for NaN, which so yields \<open>fp[0]\<close>.
\<close>

definition np_less :: "npfloat \<Rightarrow> real \<Rightarrow> bool" where
  "np_less x y = (case x of NaN \<Rightarrow> False | Val v \<Rightarrow> v < y)"

definition np_greater :: "npfloat \<Rightarrow> real \<Rightarrow> bool" where
  "np_greater x y = (case x of NaN \<Rightarrow> False | Val v \<Rightarrow> v > y)"

fun interp_seg :: "real \<Rightarrow> real list \<Rightarrow> real list \<Rightarrow> real" where
  "interp_seg x (x0 # x1 # xs) (y0 # y1 # ys) =
     (if x < x1 then
        (if x0 = x then y0 else ((y1 - y0) / (x1 - x0)) * (x - x0) + y0)
      else interp_seg x (x1 # xs) (y1 # ys))"
| "interp_seg x [x0] (y0 # ys) = y0"
| "interp_seg x xs ys = 0"

definition interp1 :: "npfloat \<Rightarrow> real list \<Rightarrow> real list \<Rightarrow> real \<Rightarrow> real \<Rightarrow> npfloat" where
  "interp1 x xp fp left right =
     (if length xp = 1 then
        (if np_less x (hd xp) then Val left
         else if np_greater x (hd xp) then Val right
         else Val (hd fp))
      else
        (case x of
           NaN \<Rightarrow> NaN
         | Val v \<Rightarrow>
             if v > last xp then Val right
             else if v < hd xp then Val left
             else Val (interp_seg v xp fp)))"

definition np_interp ::
  "npfloat list \<Rightarrow> real list \<Rightarrow> real list \<Rightarrow> real \<Rightarrow> real \<Rightarrow> npfloat list" where
  "np_interp xs xp fp left right = map (\<lambda>x. interp1 x xp fp left right) xs"

text \<open>
  The store: Python lists and numpy arrays live at addresses, and a new object gets the
  next free address.
\<close>

datatype pyobj = PyList "real list" | NdArray "npfloat list"

type_synonym heap = "pyobj list"

fun elements :: "pyobj \<Rightarrow> npfloat list" where
  "elements (PyList xs) = map Val xs"
| "elements (NdArray xs) = xs"

definition alloc :: "pyobj \<Rightarrow> heap \<Rightarrow> nat \<times> heap" where
  "alloc v h = (length h, h @ [v])"

text \<open>\<open>np.array(obj)\<close> and \<open>.astype(float)\<close> each build a new array (both copy by default).\<close>

definition np_array :: "nat \<Rightarrow> heap \<Rightarrow> nat \<times> heap" where
  "np_array a h = alloc (NdArray (elements (h ! a))) h"

definition astype_float :: "nat \<Rightarrow> heap \<Rightarrow> nat \<times> heap" where
  "astype_float a h = alloc (NdArray (elements (h ! a))) h"

text \<open>\<open>arr[arr <= 0.0] = np.nan\<close> writes into the array at the address; NaN <= 0 is false.\<close>

fun invalid_to_nan :: "npfloat \<Rightarrow> npfloat" where
  "invalid_to_nan NaN = NaN"
| "invalid_to_nan (Val v) = (if v \<le> 0 then NaN else Val v)"

definition assign_nan_where_le0 :: "nat \<Rightarrow> heap \<Rightarrow> heap" where
  "assign_nan_where_le0 a h = h[a := NdArray (map invalid_to_nan (elements (h ! a)))]"

text \<open>
  \<open>1 / arr\<close>, elementwise. The entries that reach it are NaN or positive, the others
  having been overwritten just before.
\<close>

fun np_recip :: "npfloat \<Rightarrow> npfloat" where
  "np_recip NaN = NaN"
| "np_recip (Val v) = Val (1 / v)"

definition msg_iloc :: string where
  "msg_iloc = ''single positional indexer is out-of-bounds''"

text \<open>
  \<open>loss_at_rp\<close> receives the address of the caller's \<open>return_periods\<close> and returns the
  address of the array of losses. \<open>ef_curve['Loss'].iloc[0]\<close> raises IndexError on a
  curve with no rows.
\<close>

definition loss_at_rp :: "yelt \<Rightarrow> nat \<Rightarrow> heap \<Rightarrow> (error + nat) \<times> heap" where
  "loss_at_rp t return_periods h =
     (let ef_curve = plain_curve t in
      case col_Loss ef_curve of
        [] \<Rightarrow> (Inl (IndexError msg_iloc), h)
      | max_loss # _ \<Rightarrow>
          let (a1, h1) = np_array return_periods h;
              (a2, h2) = astype_float a1 h1;
              h3 = assign_nan_where_le0 a2 h2;
              (a3, h4) = alloc (NdArray (map np_recip (elements (h3 ! a2)))) h3;
              (losses, h5) =
                alloc (NdArray (np_interp (elements (h4 ! a3)) (col_ExFreq ef_curve)
                   (col_Loss ef_curve) max_loss 0)) h4
          in (Inr losses, h5))"

text \<open>The call on a list of return periods, and the losses read from the result.\<close>

definition loss_at_rp_values :: "yelt \<Rightarrow> real list \<Rightarrow> error + npfloat list" where
  "loss_at_rp_values t rps =
     (case loss_at_rp t 0 [PyList rps] of
        (Inl e, h) \<Rightarrow> Inl e
      | (Inr a, h) \<Rightarrow> Inr (elements (h ! a)))"

subsection \<open>\<open>apply_layer\<close>\<close>

definition clip_lower :: "real \<Rightarrow> real \<Rightarrow> real" where
  "clip_lower lo v = (if v < lo then lo else v)"

definition clip_upper :: "real option \<Rightarrow> real \<Rightarrow> real" where
  "clip_upper limit v = (case limit of None \<Rightarrow> v | Some u \<Rightarrow> if v > u then u else v)"

text \<open>\<open>sort_index(level=[COL_YEAR, COL_DAY, COL_EVENT])\<close>: ascending in (Year, DayOfYear, EventID).\<close>

definition level_key :: "loss_record \<Rightarrow> int \<times> int \<times> int" where
  "level_key r = (year r, day_of_year r, event_id r)"

definition sort_index :: "loss_record list \<Rightarrow> loss_record list" where
  "sort_index rs = sort_key level_key rs"

text \<open>
  \<open>groupby('Year').head(n)\<close>: the rows keep their order, and a row stays by its
  position among the rows of its year: the first \<open>n\<close> rows of each year when
  \<open>n \<ge> 0\<close>, all but the last \<open>-n\<close> rows of each year when \<open>n < 0\<close>. \<open>seen\<close> lists
  the years of the rows passed, \<open>gsize\<close> gives the number of rows of a year.
\<close>

definition head_keeps :: "int \<Rightarrow> nat \<Rightarrow> nat \<Rightarrow> bool" where
  "head_keeps n pos gsize = (if 0 \<le> n then int pos < n else int pos < int gsize + n)"

fun groupby_head_rows ::
  "int \<Rightarrow> (int \<Rightarrow> nat) \<Rightarrow> int list \<Rightarrow> loss_record list \<Rightarrow> loss_record list" where
  "groupby_head_rows n gsize seen [] = []"
| "groupby_head_rows n gsize seen (r # rs) =
     (if head_keeps n (count_list seen (year r)) (gsize (year r))
      then r # groupby_head_rows n gsize (year r # seen) rs
      else groupby_head_rows n gsize (year r # seen) rs)"

definition count_year :: "int \<Rightarrow> loss_record list \<Rightarrow> nat" where
  "count_year y rs = length (filter (\<lambda>r. year r = y) rs)"

definition groupby_head :: "int \<Rightarrow> loss_record list \<Rightarrow> loss_record list" where
  "groupby_head n rs = groupby_head_rows n (\<lambda>y. count_year y rs) [] rs"

definition msg_xs :: string where
  "msg_xs = ''Lower loss must be >= 0''"

definition apply_layer ::
  "real option \<Rightarrow> real \<Rightarrow> int option \<Rightarrow> bool \<Rightarrow> yelt \<Rightarrow> error + loss_record list" where
  "apply_layer limit xs n_loss is_franchise t =
     (if \<not> xs \<ge> 0 then Inl (AssertionError msg_xs)
      else
        let layer_losses =
              map (\<lambda>r. r\<lparr>loss := clip_upper limit (clip_lower 0 (loss r - xs))\<rparr>) (recs t);
            layer_losses = filter (\<lambda>r. loss r > 0) layer_losses;
            layer_losses =
              (if is_franchise then map (\<lambda>r. r\<lparr>loss := loss r + xs\<rparr>) layer_losses
               else layer_losses);
            layer_losses =
              (case n_loss of
                 None \<Rightarrow> layer_losses
               | Some n \<Rightarrow> groupby_head n (sort_index layer_losses))
        in Inr layer_losses)"

text \<open>A record passes the limit clip when the clip leaves its excess as it is.\<close>

definition passed_limit :: "real option \<Rightarrow> real \<Rightarrow> bool" where
  "passed_limit limit v = (case limit of None \<Rightarrow> True | Some u \<Rightarrow> v \<le> u)"

subsection \<open>\<open>to_ep_summary\<close> and \<open>to_ep_summaries\<close>\<close>

text \<open>A summary series: its name, its index of return periods and its values.\<close>

record ep_series =
  s_name :: string
  s_index :: "real list"
  s_values :: "npfloat list"

text \<open>
  Method calls by name. A pandas Series has the method \<open>rename\<close>; it has no attribute
  \<open>renaem\<close>, and a numpy array has no attribute \<open>rename\<close>: the lookup raises
  AttributeError.
\<close>

definition series_call :: "ep_series \<Rightarrow> string \<Rightarrow> string \<Rightarrow> error + ep_series" where
  "series_call s attr arg =
     (if attr = ''rename'' then Inr (s\<lparr>s_name := arg\<rparr>)
      else Inl (AttributeError (quoted ''Series'' @ '' object has no attribute '' @ quoted attr)))"

definition ndarray_call :: "npfloat list \<Rightarrow> string \<Rightarrow> string \<Rightarrow> error + ep_series" where
  "ndarray_call a attr arg =
     Inl (AttributeError (quoted ''numpy.ndarray'' @ '' object has no attribute '' @ quoted attr))"

text \<open>
  \<open>to_ep_summary\<close> calls \<open>loss_at_rp\<close> of the accessor \<open>ylt\<close>, which lives in another
  module: it is the parameter \<open>ylt_loss_at_rp\<close>, given the year loss table, its number
  of years and the return periods.
\<close>

definition to_ep_summary ::
  "((int \<times> real) list \<Rightarrow> int \<Rightarrow> real list \<Rightarrow> error + npfloat list) \<Rightarrow>
   real list \<Rightarrow> bool \<Rightarrow> yelt \<Rightarrow> error + ep_series" where
  "to_ep_summary ylt_loss_at_rp return_periods is_occurrence t =
     (let ylt = to_ylt is_occurrence t in
      case ylt_loss_at_rp ylt (n_yrs t) return_periods of
        Inl e \<Rightarrow> Inl e
      | Inr losses \<Rightarrow>
          Inr \<lparr>s_name = ''Loss'', s_index = return_periods, s_values = losses\<rparr>)"

definition to_ep_summaries ::
  "((int \<times> real) list \<Rightarrow> int \<Rightarrow> real list \<Rightarrow> error + npfloat list) \<Rightarrow>
   real list \<Rightarrow> bool \<Rightarrow> yelt \<Rightarrow> error + ep_series list" where
  "to_ep_summaries ylt_loss_at_rp return_periods is_eef t =
     (case to_ep_summary ylt_loss_at_rp return_periods False t of
        Inl e \<Rightarrow> Inl e
      | Inr aep \<Rightarrow>
     (case to_ep_summary ylt_loss_at_rp return_periods True t of
        Inl e \<Rightarrow> Inl e
      | Inr oep \<Rightarrow>
     (case series_call aep ''rename'' ''LossPerYear'' of
        Inl e \<Rightarrow> Inl e
      | Inr aep \<Rightarrow>
     (case series_call oep ''renaem'' ''MaxEventLossPerYear'' of
        Inl e \<Rightarrow> Inl e
      | Inr oep \<Rightarrow>
          if is_eef then
            (case loss_at_rp_values t return_periods of
               Inl e \<Rightarrow> Inl e
             | Inr eef \<Rightarrow>
            (case ndarray_call eef ''rename'' ''EventLoss'' of
               Inl e \<Rightarrow> Inl e
             | Inr eef \<Rightarrow> Inr [aep, oep, eef]))
          else Inr [aep, oep]))))"

subsection \<open>Notions used in the statements\<close>

text \<open>The entry of a year in the year loss table, and the number of its events.\<close>

definition ylt_value :: "bool \<Rightarrow> yelt \<Rightarrow> int \<Rightarrow> real option" where
  "ylt_value is_occurrence t y = map_of (to_ylt is_occurrence t) y"

definition n_events :: "int \<Rightarrow> yelt \<Rightarrow> nat" where
  "n_events y t = length (filter (\<lambda>r. year r = y) (recs t))"

text \<open>The layered loss in the specification's words.\<close>

definition layer_loss :: "real option \<Rightarrow> real \<Rightarrow> real \<Rightarrow> real" where
  "layer_loss limit xs l =
     (case limit of None \<Rightarrow> max (l - xs) 0 | Some u \<Rightarrow> min (max (l - xs) 0) u)"

definition msg_renaem :: string where
  "msg_renaem = quoted ''Series'' @ '' object has no attribute '' @ quoted ''renaem''"

text \<open>The exceedance frequency of a loss value in a table.\<close>

definition ef_of :: "yelt \<Rightarrow> real \<Rightarrow> real" where
  "ef_of t v = real (rank_desc_min (map loss (recs t)) v) / real_of_int (n_yrs t)"

text \<open>
  Linear interpolation in the specification's words: \<open>y\<close> is the loss at frequency
  \<open>x\<close> on the curve through the rows (Loss, ExFreq), at a row or between two
  neighbouring rows.
\<close>

fun on_curve :: "(real \<times> real) list \<Rightarrow> real \<Rightarrow> real \<Rightarrow> bool" where
  "on_curve (a # b # rows) x y \<longleftrightarrow>
     (snd a = x \<and> y = fst a) \<or>
     (snd a < x \<and> x < snd b \<and>
        y = fst a + (x - snd a) * (fst b - fst a) / (snd b - snd a)) \<or>
     on_curve (b # rows) x y"
| "on_curve [a] x y \<longleftrightarrow> snd a = x \<and> y = fst a"
| "on_curve [] x y \<longleftrightarrow> False"

text \<open>The frequency \<open>loss_at_rp\<close> looks up for a return period.\<close>

definition target_freq :: "real \<Rightarrow> npfloat" where
  "target_freq rp = np_recip (invalid_to_nan (Val rp))"

text \<open>A table as a series, its levels in the order \<open>from_cols\<close> sets them.\<close>

definition series_of :: "yelt \<Rightarrow> series" where
  "series_of t =
     \<lparr>index = [(COL_YEAR, IntCol (map year (recs t))),
               (COL_EVENT, IntCol (map event_id (recs t))),
               (COL_DAY, IntCol (map day_of_year (recs t)))],
      vals = FloatCol (map loss (recs t)),
      attrs = [''n_yrs'' \<mapsto> n_yrs t]\<rparr>"

subsection \<open>Example tables\<close>

definition ex_index :: "(string \<times> column) list" where
  "ex_index = [(''Year'', IntCol [1, 1, 2]), (''EventID'', IntCol [7, 8, 9]),
     (''DayOfYear'', IntCol [10, 20, 30])]"

definition ex_series :: series where
  "ex_series = \<lparr>index = ex_index, vals = FloatCol [100, 50, 200], attrs = [''n_yrs'' \<mapsto> 10]\<rparr>"

definition ex_yelt :: yelt where
  "ex_yelt =
     \<lparr>recs = [\<lparr>year = 1, event_id = 7, day_of_year = 10, loss = 100\<rparr>,
              \<lparr>year = 1, event_id = 8, day_of_year = 20, loss = 50\<rparr>,
              \<lparr>year = 2, event_id = 9, day_of_year = 30, loss = 200\<rparr>],
      n_yrs = 10\<rparr>"

definition ex_duplicate_key :: series where
  "ex_duplicate_key =
     \<lparr>index = [(''Year'', IntCol [1, 1]), (''EventID'', IntCol [7, 7]),
        (''DayOfYear'', IntCol [10, 10])],
      vals = FloatCol [100, 50], attrs = [''n_yrs'' \<mapsto> 10]\<rparr>"

definition ex_year_out_of_range :: series where
  "ex_year_out_of_range = ex_series\<lparr>attrs := [''n_yrs'' \<mapsto> 1]\<rparr>"

definition ex_float_key :: series where
  "ex_float_key =
     \<lparr>index = [(''Year'', IntCol [1, 1, 2]), (''EventID'', IntCol [7, 8, 9]),
        (''DayOfYear'', FloatCol [10, 20, 30])],
      vals = FloatCol [100, 50, 200], attrs = [''n_yrs'' \<mapsto> 10]\<rparr>"

definition ex_object_loss :: series where
  "ex_object_loss = ex_series\<lparr>vals := ObjCol [''a'', ''b'', ''c'']\<rparr>"

definition ex_no_n_yrs :: series where
  "ex_no_n_yrs = ex_series\<lparr>attrs := Map.empty\<rparr>"

definition ex_signed :: yelt where
  "ex_signed =
     \<lparr>recs = [\<lparr>year = 1, event_id = 1, day_of_year = 1, loss = - 1\<rparr>,
              \<lparr>year = 1, event_id = 2, day_of_year = 2, loss = - 2\<rparr>,
              \<lparr>year = 2, event_id = 3, day_of_year = 3, loss = 5\<rparr>,
              \<lparr>year = 2, event_id = 4, day_of_year = 4, loss = 0\<rparr>],
      n_yrs = 2\<rparr>"

definition ex_layer :: yelt where
  "ex_layer =
     \<lparr>recs = [\<lparr>year = 1, event_id = 7, day_of_year = 10, loss = 100\<rparr>,
              \<lparr>year = 1, event_id = 8, day_of_year = 20, loss = 10\<rparr>],
      n_yrs = 10\<rparr>"

definition ex_capped :: yelt where
  "ex_capped =
     \<lparr>recs = [\<lparr>year = 1, event_id = 3, day_of_year = 200, loss = 500\<rparr>,
              \<lparr>year = 2, event_id = 9, day_of_year = 30, loss = 200\<rparr>,
              \<lparr>year = 1, event_id = 7, day_of_year = 10, loss = 100\<rparr>,
              \<lparr>year = 1, event_id = 8, day_of_year = 20, loss = 10\<rparr>],
      n_yrs = 10\<rparr>"

definition ex_ties :: yelt where
  "ex_ties =
     \<lparr>recs = [\<lparr>year = 1, event_id = 7, day_of_year = 10, loss = 100\<rparr>,
              \<lparr>year = 2, event_id = 8, day_of_year = 20, loss = 100\<rparr>,
              \<lparr>year = 2, event_id = 9, day_of_year = 30, loss = 50\<rparr>],
      n_yrs = 10\<rparr>"

definition ex_single :: yelt where
  "ex_single = \<lparr>recs = [\<lparr>year = 1, event_id = 1, day_of_year = 1, loss = 42\<rparr>], n_yrs = 4\<rparr>"

definition ex_empty :: yelt where
  "ex_empty = \<lparr>recs = [], n_yrs = 10\<rparr>"

definition ex_heap :: heap where
  "ex_heap = [PyList [- 1, 0, 5], NdArray [Val (- 2), Val 4]]"

subsection \<open>Facts about the validator\<close>

lemma names_ok_iff:
  "names_ok obj \<longleftrightarrow>
     length (index_names obj) = 3 \<and> list_all (\<lambda>c. c \<in> set (index_names obj)) INDEX_NAMES"
proof -
  have len: "length (index_names obj) = length (index obj)"
    by (simp add: index_names_def)
  have sub: "list_all (\<lambda>c. c \<in> set (index_names obj)) INDEX_NAMES \<longleftrightarrow>
      {''Year'', ''EventID'', ''DayOfYear''} \<subseteq> set (index_names obj)"
    by (auto simp: INDEX_NAMES_def COL_YEAR_def COL_DAY_def COL_EVENT_def)
  have "set (index_names obj) = {''Year'', ''EventID'', ''DayOfYear''}"
    if l: "length (index_names obj) = 3"
      and s: "{''Year'', ''EventID'', ''DayOfYear''} \<subseteq> set (index_names obj)"
  proof -
    have "card (set (index_names obj)) \<le> 3"
      using card_length [of "index_names obj"] l by simp
    moreover have "card {''Year'', ''EventID'', ''DayOfYear''} = 3"
      by simp
    ultimately show ?thesis
      using s card_seteq [of "set (index_names obj)" "{''Year'', ''EventID'', ''DayOfYear''}"]
      by simp
  qed
  then show ?thesis
    unfolding names_ok_def using len sub by auto
qed

lemma year_range_iff:
  "\<not> (nan_less (index_min ys) 1 \<or> nan_greater (index_max ys) n) \<longleftrightarrow>
     (\<forall>y \<in> set ys. 1 \<le> y \<and> y \<le> n)"
proof (cases "ys = []")
  case True
  then show ?thesis
    by (simp add: index_min_def index_max_def nan_less_def nan_greater_def)
next
  case False
  then have "Min (set ys) \<ge> 1 \<longleftrightarrow> (\<forall>y \<in> set ys. 1 \<le> y)"
    and "Max (set ys) \<le> n \<longleftrightarrow> (\<forall>y \<in> set ys. y \<le> n)"
    by simp_all
  with False show ?thesis
    by (auto simp: index_min_def index_max_def nan_less_def nan_greater_def not_less)
qed

lemma validate_ok_iff: "validate obj = Inr () \<longleftrightarrow> yelt_invariants obj"
proof (cases "attrs obj ''n_yrs''")
  case None
  then show ?thesis
    by (simp add: validate_def yelt_invariants_def has_n_yrs_def dom_def)
next
  case (Some n)
  then have "has_n_yrs obj"
    by (auto simp: has_n_yrs_def)
  moreover have "years_in_range obj \<longleftrightarrow>
      \<not> (nan_less (index_min (get_level_values obj COL_YEAR)) 1 \<or>
         nan_greater (index_max (get_level_values obj COL_YEAR)) n)"
    unfolding year_range_iff by (simp add: years_in_range_def Some COL_YEAR_def)
  ultimately show ?thesis
    using Some
    by (simp add: validate_def yelt_invariants_def names_ok_iff keys_integer_def
        loss_numeric_def keys_unique_def is_unique_def list_all_iff Let_def)
qed

subsection \<open>Construction of the accessor\<close>

lemma msgs_distinct:
  "distinct [AttributeError msg_levels, AttributeError msg_names, TypeError (msg_int obj),
     TypeError (msg_numeric obj'), AttributeError msg_n_yrs, AttributeError msg_unique,
     AttributeError msg_range]"
  by (simp add: msg_levels_def msg_names_def msg_int_def msg_numeric_def msg_n_yrs_def
      msg_unique_def msg_range_def)

text \<open>
  C7. Construction of the accessor accepts a series if and only if it satisfies all the
  invariants (exactly three index levels named Year, EventID and DayOfYear, all integer
  typed, numeric losses, \<open>n_yrs\<close> in the metadata, unique keys, every year within 1 and
  \<open>n_yrs\<close>); an accepted series is kept as it is; and each violation, the earlier checks
  passing, raises an error of its own, the errors being pairwise different.
\<close>

theorem init_accepts_iff_invariants:
  "((\<exists>w. init obj = Inr w) \<longleftrightarrow> yelt_invariants obj)
   \<and> (yelt_invariants obj \<longrightarrow> init obj = Inr obj)
   \<and> (length (index obj) \<noteq> 3 \<longrightarrow> init obj = Inl (AttributeError msg_levels))
   \<and> (length (index obj) = 3 \<and> \<not> names_ok obj \<longrightarrow> init obj = Inl (AttributeError msg_names))
   \<and> (names_ok obj \<and> \<not> keys_integer obj \<longrightarrow> init obj = Inl (TypeError (msg_int obj)))
   \<and> (names_ok obj \<and> keys_integer obj \<and> \<not> loss_numeric obj
        \<longrightarrow> init obj = Inl (TypeError (msg_numeric obj)))
   \<and> (names_ok obj \<and> keys_integer obj \<and> loss_numeric obj \<and> \<not> has_n_yrs obj
        \<longrightarrow> init obj = Inl (AttributeError msg_n_yrs))
   \<and> (names_ok obj \<and> keys_integer obj \<and> loss_numeric obj \<and> has_n_yrs obj \<and>
        \<not> keys_unique obj \<longrightarrow> init obj = Inl (AttributeError msg_unique))
   \<and> (names_ok obj \<and> keys_integer obj \<and> loss_numeric obj \<and> has_n_yrs obj \<and>
        keys_unique obj \<and> \<not> years_in_range obj
        \<longrightarrow> init obj = Inl (AttributeError msg_range))
   \<and> distinct [AttributeError msg_levels, AttributeError msg_names, TypeError (msg_int obj),
        TypeError (msg_numeric obj), AttributeError msg_n_yrs, AttributeError msg_unique,
        AttributeError msg_range]"
proof -
  have ok: "validate obj = Inr () \<longleftrightarrow> yelt_invariants obj"
    by (rule validate_ok_iff)
  have a: "(\<exists>w. init obj = Inr w) \<longleftrightarrow> yelt_invariants obj"
    using ok by (cases "validate obj") (auto simp: init_def)
  have b: "yelt_invariants obj \<longrightarrow> init obj = Inr obj"
    using ok by (auto simp: init_def)
  have len: "length (index_names obj) = length (index obj)"
    by (simp add: index_names_def)
  have c: "length (index obj) \<noteq> 3 \<longrightarrow> init obj = Inl (AttributeError msg_levels)"
    using len by (simp add: init_def validate_def)
  have d: "length (index obj) = 3 \<and> \<not> names_ok obj
      \<longrightarrow> init obj = Inl (AttributeError msg_names)"
    using len by (simp add: init_def validate_def names_ok_iff)
  have e: "names_ok obj \<and> \<not> keys_integer obj \<longrightarrow> init obj = Inl (TypeError (msg_int obj))"
    by (simp add: init_def validate_def names_ok_iff keys_integer_def list_all_iff)
  have f: "names_ok obj \<and> keys_integer obj \<and> \<not> loss_numeric obj
        \<longrightarrow> init obj = Inl (TypeError (msg_numeric obj))"
    by (simp add: init_def validate_def names_ok_iff keys_integer_def list_all_iff
        loss_numeric_def)
  have g: "names_ok obj \<and> keys_integer obj \<and> loss_numeric obj \<and> \<not> has_n_yrs obj
        \<longrightarrow> init obj = Inl (AttributeError msg_n_yrs)"
    by (auto simp: init_def validate_def names_ok_iff keys_integer_def list_all_iff
        loss_numeric_def has_n_yrs_def dom_def)
  have h: "names_ok obj \<and> keys_integer obj \<and> loss_numeric obj \<and> has_n_yrs obj \<and>
        \<not> keys_unique obj \<longrightarrow> init obj = Inl (AttributeError msg_unique)"
    by (auto simp: init_def validate_def names_ok_iff keys_integer_def list_all_iff
        loss_numeric_def has_n_yrs_def dom_def keys_unique_def is_unique_def)
  have i: "names_ok obj \<and> keys_integer obj \<and> loss_numeric obj \<and> has_n_yrs obj \<and>
        keys_unique obj \<and> \<not> years_in_range obj
        \<longrightarrow> init obj = Inl (AttributeError msg_range)"
  proof (cases "attrs obj ''n_yrs''")
    case None
    then show ?thesis by (simp add: has_n_yrs_def dom_def)
  next
    case (Some n)
    have "years_in_range obj \<longleftrightarrow>
      \<not> (nan_less (index_min (get_level_values obj COL_YEAR)) 1 \<or>
         nan_greater (index_max (get_level_values obj COL_YEAR)) n)"
      unfolding year_range_iff by (simp add: years_in_range_def Some COL_YEAR_def)
    then show ?thesis
      using Some
      by (auto simp: init_def validate_def names_ok_iff keys_integer_def list_all_iff
        loss_numeric_def keys_unique_def is_unique_def Let_def)
  qed
  from a b c d e f g h i msgs_distinct [of obj obj] show ?thesis
    by blast
qed

lemmas ex_simps = yelt_invariants_def ex_series_def ex_index_def names_ok_def index_names_def
    keys_integer_def levels_def loss_numeric_def has_n_yrs_def keys_unique_def index_keys_def
    nrows_def years_in_range_def get_level_values_def upt_rec ex_duplicate_key_def
    ex_year_out_of_range_def ex_float_key_def ex_object_loss_def ex_no_n_yrs_def

theorem init_accepts_iff_invariants_witness:
  "yelt_invariants ex_series \<and> init ex_series = Inr ex_series
   \<and> \<not> keys_unique ex_duplicate_key
   \<and> init ex_duplicate_key = Inl (AttributeError msg_unique)
   \<and> \<not> years_in_range ex_year_out_of_range
   \<and> init ex_year_out_of_range = Inl (AttributeError msg_range)
   \<and> \<not> keys_integer ex_float_key
   \<and> init ex_float_key = Inl (TypeError (msg_int ex_float_key))
   \<and> \<not> loss_numeric ex_object_loss
   \<and> init ex_object_loss = Inl (TypeError (msg_numeric ex_object_loss))
   \<and> \<not> has_n_yrs ex_no_n_yrs
   \<and> init ex_no_n_yrs = Inl (AttributeError msg_n_yrs)"
proof -
  have 1: "yelt_invariants ex_series"
    by (simp add: ex_simps)
  have 2: "names_ok ex_duplicate_key \<and> keys_integer ex_duplicate_key \<and>
      loss_numeric ex_duplicate_key \<and> has_n_yrs ex_duplicate_key \<and>
      \<not> keys_unique ex_duplicate_key"
    by (simp add: ex_simps)
  have 3: "names_ok ex_year_out_of_range \<and> keys_integer ex_year_out_of_range \<and>
      loss_numeric ex_year_out_of_range \<and> has_n_yrs ex_year_out_of_range \<and>
      keys_unique ex_year_out_of_range \<and> \<not> years_in_range ex_year_out_of_range"
    by (simp add: ex_simps)
  have 4: "names_ok ex_float_key \<and> \<not> keys_integer ex_float_key"
    by (simp add: ex_simps)
  have 5: "names_ok ex_object_loss \<and> keys_integer ex_object_loss \<and>
      \<not> loss_numeric ex_object_loss"
    by (simp add: ex_simps)
  have 6: "names_ok ex_no_n_yrs \<and> keys_integer ex_no_n_yrs \<and> loss_numeric ex_no_n_yrs \<and>
      \<not> has_n_yrs ex_no_n_yrs"
    by (simp add: ex_simps)
  note T = init_accepts_iff_invariants
  note c2 = conjunct2
  have a: "init ex_series = Inr ex_series"
    using 1 T [of ex_series, THEN c2, THEN conjunct1] by blast
  have b: "init ex_duplicate_key = Inl (AttributeError msg_unique)"
    using 2 T [of ex_duplicate_key, THEN c2, THEN c2, THEN c2, THEN c2, THEN c2, THEN c2,
        THEN c2, THEN conjunct1]
    by blast
  have c: "init ex_year_out_of_range = Inl (AttributeError msg_range)"
    using 3 T [of ex_year_out_of_range, THEN c2, THEN c2, THEN c2, THEN c2, THEN c2, THEN c2,
        THEN c2, THEN c2, THEN conjunct1]
    by blast
  have d: "init ex_float_key = Inl (TypeError (msg_int ex_float_key))"
    using 4 T [of ex_float_key, THEN c2, THEN c2, THEN c2, THEN c2, THEN conjunct1]
    by blast
  have e: "init ex_object_loss = Inl (TypeError (msg_numeric ex_object_loss))"
    using 5 T [of ex_object_loss, THEN c2, THEN c2, THEN c2, THEN c2, THEN c2, THEN conjunct1]
    by blast
  have f: "init ex_no_n_yrs = Inl (AttributeError msg_n_yrs)"
    using 6 T [of ex_no_n_yrs, THEN c2, THEN c2, THEN c2, THEN c2, THEN c2, THEN c2,
        THEN conjunct1]
    by blast
  show ?thesis
    using 1 2 3 4 5 6 a b c d e f by blast
qed

subsection \<open>Valid tables and accepted series\<close>

text \<open>
  The tables the methods are proved for are those of accepted series: a valid table
  is the table of a series the accessor accepts, and the table of any accepted series
  (whose levels are as long as its values) is valid.
\<close>

lemma yelt_of_series_of: "yelt_of (series_of t) = t"
proof -
  have "map (\<lambda>i. \<lparr>year = map year (recs t) ! i, event_id = map event_id (recs t) ! i,
          day_of_year = map day_of_year (recs t) ! i, loss = map loss (recs t) ! i\<rparr>)
        [0..<length (recs t)] = recs t"
    by (rule nth_equalityI) simp_all
  then show ?thesis
    by (simp add: yelt_of_def series_of_def get_level_values_def nrows_def COL_YEAR_def
        COL_EVENT_def COL_DAY_def)
qed

lemma index_keys_series_of:
  "index_keys (series_of t) =
     map (\<lambda>r. [IntV (year r), IntV (event_id r), IntV (day_of_year r)]) (recs t)"
  by (rule nth_equalityI) (simp_all add: index_keys_def series_of_def levels_def nrows_def)

lemma valid_yelt_accepted:
  assumes "valid_yelt t"
  shows "init (series_of t) = Inr (series_of t)"
proof -
  define f :: "int \<times> int \<times> int \<Rightarrow> cell list"
    where "f = (\<lambda>k. [IntV (fst k), IntV (fst (snd k)), IntV (snd (snd k))])"
  have "inj f"
    unfolding f_def by (rule injI) (simp add: prod_eq_iff)
  then have "inj_on f (set (map rec_key (recs t)))"
    by (rule inj_on_subset) simp
  moreover have "distinct (map rec_key (recs t))"
    using assms by (simp add: valid_yelt_def)
  ultimately have "distinct (map f (map rec_key (recs t)))"
    unfolding distinct_map by simp
  then have u: "keys_unique (series_of t)"
    by (simp add: keys_unique_def index_keys_series_of rec_key_def comp_def f_def)
  have "yelt_invariants (series_of t)"
    using assms u
    by (simp add: yelt_invariants_def names_ok_def keys_integer_def loss_numeric_def
        has_n_yrs_def years_in_range_def series_of_def index_names_def levels_def
        get_level_values_def COL_YEAR_def COL_EVENT_def COL_DAY_def valid_yelt_def)
  then show ?thesis
    by (simp add: init_def validate_ok_iff [symmetric])
qed

lemma level_of_name:
  assumes "names_ok obj" and "keys_integer obj" and "wf_series obj"
    and "p \<in> set (index obj)"
  shows "snd p = IntCol (get_level_values obj (fst p))"
    and "length (get_level_values obj (fst p)) = nrows obj"
    and "fst p \<in> {''Year'', ''EventID'', ''DayOfYear''}"
proof -
  have "card (set (index_names obj)) = length (index_names obj)"
    using assms(1) by (simp add: names_ok_def index_names_def)
  then have "distinct (map fst (index obj))"
    by (simp add: card_distinct index_names_def)
  then have m: "map_of (index obj) (fst p) = Some (snd p)"
    using assms(4) by simp
  have "is_integer_dtype (snd p)"
    using assms(2,4) by (simp add: keys_integer_def levels_def)
  then obtain ys where ys: "snd p = IntCol ys"
    by (cases "snd p") simp_all
  with m show c: "snd p = IntCol (get_level_values obj (fst p))"
    by (simp add: get_level_values_def)
  have "length (cells (snd p)) = nrows obj"
    using assms(3,4) by (simp add: wf_series_def levels_def)
  then show "length (get_level_values obj (fst p)) = nrows obj"
    by (subst (asm) c) simp
  have "fst p \<in> set (index_names obj)"
    unfolding index_names_def using assms(4) by (simp only: set_map) (rule imageI)
  moreover have "set (index_names obj) = {''Year'', ''EventID'', ''DayOfYear''}"
    using assms(1) by (simp only: names_ok_def)
  ultimately show "fst p \<in> {''Year'', ''EventID'', ''DayOfYear''}"
    by (rule subst [where P = "\<lambda>A. fst p \<in> A", rotated])
qed

lemma accepted_series_valid:
  assumes "validate obj = Inr ()" and "wf_series obj"
  shows "valid_yelt (yelt_of obj)"
proof -
  from assms(1) have inv: "yelt_invariants obj"
    by (simp add: validate_ok_iff)
  then have nm: "names_ok obj" and ki: "keys_integer obj" and ku: "keys_unique obj"
    and yr: "years_in_range obj" and hn: "has_n_yrs obj"
    by (simp_all add: yelt_invariants_def)
  let ?Y = "get_level_values obj ''Year''"
  let ?E = "get_level_values obj ''EventID''"
  let ?D = "get_level_values obj ''DayOfYear''"
  let ?n = "nrows obj"
  from hn obtain n where n: "attrs obj ''n_yrs'' = Some n"
    by (auto simp: has_n_yrs_def)
  have "''Year'' \<in> fst ` set (index obj)"
    using nm by (simp add: names_ok_def index_names_def)
  then obtain p where p: "p \<in> set (index obj)" "fst p = ''Year''"
    by auto
  have lenY: "length ?Y = ?n"
    using level_of_name(2) [OF nm ki assms(2) p(1)] p(2) by simp
  have key_eq: "index_keys obj ! i = index_keys obj ! j"
    if "i < ?n" "j < ?n" "?Y ! i = ?Y ! j" "?E ! i = ?E ! j" "?D ! i = ?D ! j" for i j
  proof -
    have "cells c ! i = cells c ! j" if c: "c \<in> set (levels obj)" for c
    proof -
      from c obtain q where q: "q \<in> set (index obj)" "c = snd q"
        by (auto simp: levels_def)
      note L = level_of_name [OF nm ki assms(2) q(1)]
      from L(3) consider "fst q = ''Year''" | "fst q = ''EventID''" | "fst q = ''DayOfYear''"
        by blast
      then have "get_level_values obj (fst q) ! i = get_level_values obj (fst q) ! j"
      proof cases
        case 1
        with \<open>?Y ! i = ?Y ! j\<close> show ?thesis by (simp only:)
      next
        case 2
        with \<open>?E ! i = ?E ! j\<close> show ?thesis by (simp only:)
      next
        case 3
        with \<open>?D ! i = ?D ! j\<close> show ?thesis by (simp only:)
      qed
      moreover have "cells c = map IntV (get_level_values obj (fst q))"
        using L(1) q(2) by simp
      ultimately show ?thesis
        using L(2) \<open>i < ?n\<close> \<open>j < ?n\<close> by simp
    qed
    then show ?thesis
      using that(1,2) by (simp add: index_keys_def)
  qed
  have "distinct (map (\<lambda>i. (?Y ! i, ?E ! i, ?D ! i)) [0..<?n])"
  proof -
    have "inj_on (\<lambda>i. (?Y ! i, ?E ! i, ?D ! i)) (set [0..<?n])"
    proof (rule inj_onI)
      fix i j
      assume i: "i \<in> set [0..<?n]" and j: "j \<in> set [0..<?n]"
        and eq: "(?Y ! i, ?E ! i, ?D ! i) = (?Y ! j, ?E ! j, ?D ! j)"
      from i j have ij: "i < ?n" "j < ?n"
        by simp_all
      from eq have "?Y ! i = ?Y ! j" and "?E ! i = ?E ! j" and "?D ! i = ?D ! j"
        by (simp_all only: prod.inject)
      with ij have keq: "index_keys obj ! i = index_keys obj ! j"
        by (rule key_eq)
      have len: "length (index_keys obj) = ?n"
        by (simp add: index_keys_def)
      have "distinct (index_keys obj)"
        using ku by (simp only: keys_unique_def)
      then have "(index_keys obj ! i = index_keys obj ! j) = (i = j)"
        using ij unfolding len [symmetric] by (rule nth_eq_iff_index_eq)
      with keq show "i = j"
        by (simp only:)
    qed
    then show ?thesis
      by (simp add: distinct_map)
  qed
  then have d: "distinct (map rec_key (recs (yelt_of obj)))"
    by (simp add: yelt_of_def rec_key_def comp_def COL_YEAR_def COL_EVENT_def COL_DAY_def)
  have "1 \<le> ?Y ! i \<and> ?Y ! i \<le> n" if "i < ?n" for i
  proof -
    have "?Y ! i \<in> set ?Y"
      using that lenY by simp
    then show ?thesis
      using yr n by (simp add: years_in_range_def)
  qed
  then have "\<forall>r \<in> set (recs (yelt_of obj)). 1 \<le> year r \<and> year r \<le> n_yrs (yelt_of obj)"
    using n by (auto simp: yelt_of_def COL_YEAR_def)
  with d show ?thesis
    by (simp add: valid_yelt_def)
qed

subsection \<open>Year loss tables\<close>

lemma map_of_graph: "y \<in> set ys \<Longrightarrow> map_of (map (\<lambda>y. (y, f y)) ys) y = Some (f y)"
  by (induction ys) auto

lemma set_group_years: "set (group_years rs) = year ` set rs"
  by (simp add: group_years_def)

lemma ylt_value_present:
  assumes "y \<in> year ` set (recs t)"
  shows "ylt_value True t y = Some (Max (set (year_losses y (recs t))))"
    and "ylt_value False t y = Some (sum_list (year_losses y (recs t)))"
  using assms map_of_graph [of y "group_years (recs t)"]
  by (simp_all add: ylt_value_def to_ylt_def set_group_years)

lemma Max_le_sum_list:
  fixes xs :: "real list"
  assumes "xs \<noteq> []" and "\<forall>x \<in> set xs. 0 \<le> x"
  shows "Max (set xs) \<le> sum_list xs"
  using assms
proof (induction xs)
  case Nil
  then show ?case by simp
next
  case (Cons x xs)
  show ?case
  proof (cases "xs = []")
    case True
    then show ?thesis by simp
  next
    case False
    with Cons have ih: "Max (set xs) \<le> sum_list xs" by simp
    have "0 \<le> x" using Cons.prems by simp
    moreover have "0 \<le> sum_list xs"
      using Cons.prems by (simp add: sum_list_nonneg)
    ultimately show ?thesis
      using False ih by auto
  qed
qed

lemma Max_less_sum_list:
  fixes xs :: "real list"
  assumes "2 \<le> length xs" and "\<forall>x \<in> set xs. 0 < x"
  shows "Max (set xs) < sum_list xs"
  using assms
proof (induction xs)
  case Nil
  then show ?case by simp
next
  case (Cons x xs)
  then have ne: "xs \<noteq> []" by auto
  have x: "0 < x" using Cons.prems by simp
  have pos: "\<forall>y \<in> set xs. 0 \<le> y" using Cons.prems by (auto intro: less_imp_le)
  have le: "Max (set xs) \<le> sum_list xs"
    using ne pos by (rule Max_le_sum_list)
  have gt: "0 < Max (set xs)"
  proof -
    from ne obtain z where z: "z \<in> set xs"
      by (cases xs) auto
    then have "0 < z" using Cons.prems by simp
    moreover have "z \<le> Max (set xs)" using z by simp
    ultimately show ?thesis by simp
  qed
  have m: "Max (set (x # xs)) = max x (Max (set xs))"
    using ne by simp
  have s: "sum_list (x # xs) = x + sum_list xs"
    by simp
  show ?case
    unfolding m s using le gt x by linarith
qed

lemma Max_eq_sum_list_single:
  fixes xs :: "real list"
  assumes "length xs = 1"
  shows "Max (set xs) = sum_list xs"
proof -
  from assms obtain x where "xs = [x]"
    by (cases xs) auto
  then show ?thesis by simp
qed

lemma year_losses_length: "length (year_losses y (recs t)) = n_events y t"
  by (simp add: year_losses_def n_events_def)

lemma n_events_pos: "y \<in> year ` set (recs t) \<Longrightarrow> 0 < n_events y t"
  by (auto simp: n_events_def filter_empty_conv)

text \<open>
  C9 (as amended). For every valid table and every year present in it, the entry of
  \<open>to_ylt(is_occurrence=True)\<close> is at most the entry of \<open>to_ylt(is_occurrence=False)\<close>
  when the losses of that year are all non-negative; the two are equal when the year has
  at most one event; and when the losses of that year are all positive they are equal
  only if the year has at most one event.
\<close>

theorem to_ylt_max_le_sum:
  assumes "valid_yelt t" and "y \<in> year ` set (recs t)"
  shows "\<exists>m s. ylt_value True t y = Some m \<and> ylt_value False t y = Some s \<and>
    ((\<forall>r \<in> set (recs t). year r = y \<longrightarrow> 0 \<le> loss r) \<longrightarrow> m \<le> s) \<and>
    (n_events y t \<le> 1 \<longrightarrow> m = s) \<and>
    ((\<forall>r \<in> set (recs t). year r = y \<longrightarrow> 0 < loss r) \<longrightarrow> (m = s \<longleftrightarrow> n_events y t \<le> 1))"
proof -
  let ?xs = "year_losses y (recs t)"
  have len: "length ?xs = n_events y t"
    by (rule year_losses_length)
  have pos: "0 < n_events y t"
    using assms(2) by (rule n_events_pos)
  then have ne: "?xs \<noteq> []"
    using len by auto
  have mem: "set ?xs = loss ` {r \<in> set (recs t). year r = y}"
    by (auto simp: year_losses_def)
  have a: "Max (set ?xs) \<le> sum_list ?xs" if "\<forall>r \<in> set (recs t). year r = y \<longrightarrow> 0 \<le> loss r"
    using ne that by (intro Max_le_sum_list) (auto simp: mem)
  have b: "Max (set ?xs) = sum_list ?xs" if "n_events y t \<le> 1"
    using that pos len by (intro Max_eq_sum_list_single) simp
  have c: "Max (set ?xs) \<noteq> sum_list ?xs"
    if "\<forall>r \<in> set (recs t). year r = y \<longrightarrow> 0 < loss r" and "\<not> n_events y t \<le> 1"
  proof -
    have "Max (set ?xs) < sum_list ?xs"
      using that len by (intro Max_less_sum_list) (auto simp: mem)
    then show ?thesis by simp
  qed
  show ?thesis
    using ylt_value_present [OF assms(2)] a b c by auto
qed

lemma ex_yelt_valid: "valid_yelt ex_yelt"
  by (simp add: valid_yelt_def ex_yelt_def rec_key_def)

theorem to_ylt_max_le_sum_witness:
  "valid_yelt ex_yelt \<and> 1 \<in> year ` set (recs ex_yelt) \<and>
   ylt_value True ex_yelt 1 = Some 100 \<and> ylt_value False ex_yelt 1 = Some 150 \<and>
   n_events 1 ex_yelt = 2 \<and>
   ylt_value True ex_yelt 2 = Some 200 \<and> ylt_value False ex_yelt 2 = Some 200 \<and>
   n_events 2 ex_yelt = 1"
proof -
  have y1: "1 \<in> year ` set (recs ex_yelt)" and y2: "2 \<in> year ` set (recs ex_yelt)"
    by (simp_all add: ex_yelt_def)
  have v: "ylt_value True ex_yelt 1 = Some 100" "ylt_value False ex_yelt 1 = Some 150"
    "ylt_value True ex_yelt 2 = Some 200" "ylt_value False ex_yelt 2 = Some 200"
    by (simp_all add: ylt_value_def to_ylt_def group_years_def year_losses_def ex_yelt_def)
  have n: "n_events 1 ex_yelt = 2" "n_events 2 ex_yelt = 1"
    by (simp_all add: n_events_def ex_yelt_def)
  from to_ylt_max_le_sum [OF ex_yelt_valid y1] to_ylt_max_le_sum [OF ex_yelt_valid y2]
  show ?thesis
    using ex_yelt_valid y1 v n by simp
qed

text \<open>
  C9 as stated fails: in a year with the losses -1 and -2 the maximum exceeds the sum,
  and in a year with the losses 5 and 0 the two are equal although the year has two
  events.
\<close>

theorem to_ylt_max_le_sum_counterexample:
  "valid_yelt ex_signed \<and>
   ylt_value True ex_signed 1 = Some (- 1) \<and> ylt_value False ex_signed 1 = Some (- 3) \<and>
   \<not> (- 1 :: real) \<le> - 3 \<and>
   ylt_value True ex_signed 2 = Some 5 \<and> ylt_value False ex_signed 2 = Some 5 \<and>
   n_events 2 ex_signed = 2 \<and> \<not> n_events 2 ex_signed \<le> 1"
proof -
  have "valid_yelt ex_signed"
    by (simp add: valid_yelt_def ex_signed_def rec_key_def)
  moreover have "ylt_value True ex_signed 1 = Some (- 1)" "ylt_value False ex_signed 1 = Some (- 3)"
    "ylt_value True ex_signed 2 = Some 5" "ylt_value False ex_signed 2 = Some 5"
    by (simp_all add: ylt_value_def to_ylt_def group_years_def year_losses_def ex_signed_def)
  moreover have "n_events 2 ex_signed = 2"
    by (simp add: n_events_def ex_signed_def)
  ultimately show ?thesis by simp
qed

subsection \<open>Layers\<close>

lemma clip_layer_loss: "clip_upper limit (clip_lower 0 (l - xs)) = layer_loss limit xs l"
  by (auto simp: clip_upper_def clip_lower_def layer_loss_def split: option.splits)

lemma apply_layer_plain:
  "0 \<le> xs \<Longrightarrow> apply_layer limit xs None False t =
     Inr (filter (\<lambda>r. loss r > 0) (map (\<lambda>r. r\<lparr>loss := layer_loss limit xs (loss r)\<rparr>) (recs t)))"
  by (simp add: apply_layer_def clip_layer_loss)

lemma filter_map_layer:
  assumes "\<And>l. 0 < f l \<longleftrightarrow> P l"
  shows "filter (\<lambda>r. loss r > 0) (map (\<lambda>r. r\<lparr>loss := f (loss r)\<rparr>) rs) =
     map (\<lambda>r. r\<lparr>loss := f (loss r)\<rparr>) (filter (\<lambda>r. P (loss r)) rs)"
  using assms by (induction rs) auto

lemma layer_loss_pos_iff:
  assumes "0 \<le> xs" and "limit = None \<or> (\<exists>u. limit = Some u \<and> 0 < u)"
  shows "0 < layer_loss limit xs l \<longleftrightarrow> xs < l"
  using assms by (auto simp: layer_loss_def)

lemma layer_loss_nonpos:
  assumes "u \<le> 0"
  shows "\<not> 0 < layer_loss (Some u) xs l"
  using assms by (auto simp: layer_loss_def)

text \<open>
  C2 (as amended). With \<open>xs \<ge> 0\<close>, no franchise and no occurrence cap, \<open>apply_layer\<close>
  turns the loss of each record into min(max(loss - xs, 0), limit) (no upper clip when
  the limit is absent) and drops every record whose new loss is not positive; so, when
  the limit is absent or positive, the result holds exactly the records whose loss
  exceeds \<open>xs\<close>, and when the limit is zero or negative it holds none. A call with
  \<open>xs < 0\<close> fails its assertion at once. \<open>apply_layer(limit=50, xs=20)\<close> maps a loss of
  100 to 50 and drops a record with loss 10.
\<close>

theorem apply_layer_excess:
  "(xs < 0 \<longrightarrow> apply_layer limit xs n_loss is_franchise t = Inl (AssertionError msg_xs))
   \<and> (0 \<le> xs \<longrightarrow>
        apply_layer limit xs None False t =
          Inr (filter (\<lambda>r. loss r > 0)
                 (map (\<lambda>r. r\<lparr>loss := layer_loss limit xs (loss r)\<rparr>) (recs t))))
   \<and> (0 \<le> xs \<and> (limit = None \<or> (\<exists>u. limit = Some u \<and> 0 < u)) \<longrightarrow>
        apply_layer limit xs None False t =
          Inr (map (\<lambda>r. r\<lparr>loss := layer_loss limit xs (loss r)\<rparr>)
                 (filter (\<lambda>r. xs < loss r) (recs t))))
   \<and> (0 \<le> xs \<and> (\<exists>u. limit = Some u \<and> u \<le> 0) \<longrightarrow>
        apply_layer limit xs None False t = Inr [])
   \<and> apply_layer (Some 50) 20 None False ex_layer =
        Inr [\<lparr>year = 1, event_id = 7, day_of_year = 10, loss = 50\<rparr>]"
proof -
  have a: "xs < 0 \<longrightarrow> apply_layer limit xs n_loss is_franchise t = Inl (AssertionError msg_xs)"
    by (simp add: apply_layer_def)
  have b: "0 \<le> xs \<longrightarrow>
        apply_layer limit xs None False t =
          Inr (filter (\<lambda>r. loss r > 0)
                 (map (\<lambda>r. r\<lparr>loss := layer_loss limit xs (loss r)\<rparr>) (recs t)))"
    by (simp add: apply_layer_plain)
  have c: "0 \<le> xs \<and> (limit = None \<or> (\<exists>u. limit = Some u \<and> 0 < u)) \<longrightarrow>
        apply_layer limit xs None False t =
          Inr (map (\<lambda>r. r\<lparr>loss := layer_loss limit xs (loss r)\<rparr>)
                 (filter (\<lambda>r. xs < loss r) (recs t)))"
  proof
    assume h: "0 \<le> xs \<and> (limit = None \<or> (\<exists>u. limit = Some u \<and> 0 < u))"
    then have "\<And>l. 0 < layer_loss limit xs l \<longleftrightarrow> xs < l"
      by (intro layer_loss_pos_iff) auto
    then show "apply_layer limit xs None False t =
          Inr (map (\<lambda>r. r\<lparr>loss := layer_loss limit xs (loss r)\<rparr>)
                 (filter (\<lambda>r. xs < loss r) (recs t)))"
      using h by (simp add: apply_layer_plain filter_map_layer [where P = "\<lambda>l. xs < l"])
  qed
  have d: "0 \<le> xs \<and> (\<exists>u. limit = Some u \<and> u \<le> 0) \<longrightarrow>
        apply_layer limit xs None False t = Inr []"
  proof
    assume h: "0 \<le> xs \<and> (\<exists>u. limit = Some u \<and> u \<le> 0)"
    then have "\<And>l. 0 < layer_loss limit xs l \<longleftrightarrow> False"
      using layer_loss_nonpos by auto
    then show "apply_layer limit xs None False t = Inr []"
      using h by (simp add: apply_layer_plain filter_map_layer [where P = "\<lambda>l. False"])
  qed
  have e: "apply_layer (Some 50) 20 None False ex_layer =
        Inr [\<lparr>year = 1, event_id = 7, day_of_year = 10, loss = 50\<rparr>]"
    by (simp add: apply_layer_def ex_layer_def clip_upper_def clip_lower_def)
  from a b c d e show ?thesis by blast
qed

theorem apply_layer_excess_witness:
  "(0::real) \<le> 20 \<and> (0::real) < 50 \<and>
   apply_layer (Some 50) 20 None False ex_yelt =
     Inr [\<lparr>year = 1, event_id = 7, day_of_year = 10, loss = 50\<rparr>,
          \<lparr>year = 1, event_id = 8, day_of_year = 20, loss = 30\<rparr>,
          \<lparr>year = 2, event_id = 9, day_of_year = 30, loss = 50\<rparr>]
   \<and> (- 1 :: real) < 0
   \<and> apply_layer (Some 50) (- 1) None False ex_yelt = Inl (AssertionError msg_xs)
   \<and> apply_layer (Some 0) 20 None False ex_yelt = Inr []"
proof -
  note T = apply_layer_excess
  note c2 = conjunct2
  have 1: "(0::real) \<le> 20 \<and> (Some (50::real) = None \<or> (\<exists>u. Some (50::real) = Some u \<and> 0 < u))"
    by simp
  have a: "apply_layer (Some 50) 20 None False ex_yelt =
     Inr [\<lparr>year = 1, event_id = 7, day_of_year = 10, loss = 50\<rparr>,
          \<lparr>year = 1, event_id = 8, day_of_year = 20, loss = 30\<rparr>,
          \<lparr>year = 2, event_id = 9, day_of_year = 30, loss = 50\<rparr>]"
    using T [of 20 "Some 50" None False ex_yelt, THEN c2, THEN c2, THEN conjunct1, THEN mp, OF 1]
    by (simp add: ex_yelt_def layer_loss_def)
  have b: "apply_layer (Some 50) (- 1) None False ex_yelt = Inl (AssertionError msg_xs)"
    using T [of "- 1" "Some 50" None False ex_yelt, THEN conjunct1] by simp
  have 3: "(0::real) \<le> 20 \<and> (\<exists>u. Some (0::real) = Some u \<and> u \<le> 0)"
    by simp
  have c: "apply_layer (Some 0) 20 None False ex_yelt = Inr []"
    using T [of 20 "Some 0" None False ex_yelt, THEN c2, THEN c2, THEN c2, THEN conjunct1,
        THEN mp, OF 3] .
  from a b c show ?thesis by simp
qed

text \<open>
  C2 as stated fails: with \<open>limit = 0\<close> a record whose loss exceeds \<open>xs\<close> is dropped.
\<close>

theorem apply_layer_excess_counterexample:
  "(0::real) \<le> 0 \<and> apply_layer (Some 0) 0 None False ex_layer = Inr [] \<and>
   \<lparr>year = 1, event_id = 7, day_of_year = 10, loss = 100\<rparr> \<in> set (recs ex_layer) \<and>
   (0::real) < 100"
  by (simp add: apply_layer_def ex_layer_def clip_upper_def clip_lower_def)

lemma set_groupby_head_rows: "set (groupby_head_rows n gsize seen rs) \<subseteq> set rs"
  by (induction rs arbitrary: seen) auto

lemma filter_groupby_head_rows:
  assumes "0 \<le> n"
  shows "filter (\<lambda>r. year r = y) (groupby_head_rows n gsize seen rs) =
     take (nat n - count_list seen y) (filter (\<lambda>r. year r = y) rs)"
proof (induction rs arbitrary: seen)
  case Nil
  then show ?case by simp
next
  case (Cons r rs)
  have keeps: "head_keeps n pos sz \<longleftrightarrow> pos < nat n" for pos sz
    using assms by (auto simp: head_keeps_def)
  show ?case
  proof (cases "year r = y")
    case True
    show ?thesis
    proof (cases "count_list seen y < nat n")
      case less: True
      then obtain k where k: "nat n - count_list seen y = Suc k"
        by (cases "nat n - count_list seen y") auto
      then have "nat n - count_list (y # seen) y = k"
        by simp
      with Cons.IH [of "y # seen"] True less k show ?thesis
        by (simp add: keeps)
    next
      case False
      then have "nat n - count_list seen y = 0" "nat n - count_list (y # seen) y = 0"
        by simp_all
      with Cons.IH [of "y # seen"] True False show ?thesis
        by (simp add: keeps)
    qed
  next
    case False
    with Cons.IH [of "year r # seen"] show ?thesis
      by simp
  qed
qed

lemma sorted_wrt_groupby_head_rows:
  "sorted_wrt P rs \<Longrightarrow> sorted_wrt P (groupby_head_rows n gsize seen rs)"
proof (induction rs arbitrary: seen)
  case Nil
  then show ?case by simp
next
  case (Cons r rs)
  then show ?case
    using set_groupby_head_rows [of n gsize "year r # seen" rs] by auto
qed

lemma set_groupby_head: "set (groupby_head n rs) \<subseteq> set rs"
  by (simp add: groupby_head_def set_groupby_head_rows)

lemma filter_groupby_head:
  "0 \<le> n \<Longrightarrow> filter (\<lambda>r. year r = y) (groupby_head n rs) =
     take (nat n) (filter (\<lambda>r. year r = y) rs)"
  by (simp add: groupby_head_def filter_groupby_head_rows)

lemma sorted_wrt_groupby_head: "sorted_wrt P rs \<Longrightarrow> sorted_wrt P (groupby_head n rs)"
  by (simp add: groupby_head_def sorted_wrt_groupby_head_rows)

lemma sorted_sort_index: "sorted (map level_key (sort_index rs))"
  by (simp add: sort_index_def)

lemma set_sort_index: "set (sort_index rs) = set rs"
  by (simp add: sort_index_def)

lemma mset_sort_index: "mset (sort_index rs) = mset rs"
  by (simp add: sort_index_def)

lemma apply_layer_capped:
  "apply_layer limit xs (Some n) fr t = Inr out \<longleftrightarrow>
     (\<exists>full. apply_layer limit xs None fr t = Inr full \<and>
        out = groupby_head n (sort_index full))"
  by (auto simp: apply_layer_def Let_def)

text \<open>
  C4 (as amended). When the occurrence cap \<open>n_loss\<close> is given and is not negative,
  \<open>apply_layer\<close> keeps within each year only the first \<open>n_loss\<close> surviving records in
  ascending (Year, DayOfYear, EventID) order: the result is in that order, every year
  has at most \<open>n_loss\<close> records in it, and the records of a year are the first \<open>n_loss\<close>
  of that year among the survivors sorted by their keys, whatever their losses.
\<close>

theorem apply_layer_occurrence_cap:
  assumes "apply_layer limit xs (Some n) is_franchise t = Inr out" and "0 \<le> n"
  shows "\<exists>full. apply_layer limit xs None is_franchise t = Inr full \<and>
     sorted (map level_key (sort_index full)) \<and> mset (sort_index full) = mset full \<and>
     sorted (map level_key out) \<and>
     (\<forall>y. int (count_year y out) \<le> n \<and>
          filter (\<lambda>r. year r = y) out =
            take (nat n) (filter (\<lambda>r. year r = y) (sort_index full)))"
proof -
  from assms(1) obtain full where full: "apply_layer limit xs None is_franchise t = Inr full"
    and out: "out = groupby_head n (sort_index full)"
    unfolding apply_layer_capped by blast
  have s: "sorted (map level_key (sort_index full))"
    by (rule sorted_sort_index)
  then have "sorted_wrt (\<lambda>a b. level_key a \<le> level_key b) (sort_index full)"
    by (simp add: sorted_map)
  then have "sorted_wrt (\<lambda>a b. level_key a \<le> level_key b) out"
    unfolding out by (rule sorted_wrt_groupby_head)
  then have so: "sorted (map level_key out)"
    by (simp add: sorted_map)
  have f: "filter (\<lambda>r. year r = y) out =
      take (nat n) (filter (\<lambda>r. year r = y) (sort_index full))" for y
    unfolding out using assms(2) by (rule filter_groupby_head)
  have "int (count_year y out) \<le> n" for y
    unfolding count_year_def f using assms(2) by simp
  with full s so f mset_sort_index show ?thesis
    by blast
qed

theorem apply_layer_occurrence_cap_witness:
  "(0::int) \<le> 1 \<and>
   apply_layer None 0 (Some 1) False ex_capped =
     Inr [\<lparr>year = 1, event_id = 7, day_of_year = 10, loss = 100\<rparr>,
          \<lparr>year = 2, event_id = 9, day_of_year = 30, loss = 200\<rparr>]
   \<and> int (count_year 1
       [\<lparr>year = 1, event_id = 7, day_of_year = 10, loss = 100\<rparr>,
        \<lparr>year = 2, event_id = 9, day_of_year = 30, loss = 200\<rparr>]) \<le> 1"
proof -
  have e: "apply_layer None 0 (Some 1) False ex_capped =
     Inr [\<lparr>year = 1, event_id = 7, day_of_year = 10, loss = 100\<rparr>,
          \<lparr>year = 2, event_id = 9, day_of_year = 30, loss = 200\<rparr>]"
    by (simp add: apply_layer_def ex_capped_def clip_upper_def clip_lower_def sort_index_def
        level_key_def groupby_head_def head_keeps_def count_year_def)
  have n: "(0::int) \<le> 1"
    by simp
  from apply_layer_occurrence_cap [OF e n] have
    "\<forall>y. int (count_year y
       [\<lparr>year = 1, event_id = 7, day_of_year = 10, loss = 100\<rparr>,
        \<lparr>year = 2, event_id = 9, day_of_year = 30, loss = 200\<rparr>]) \<le> 1"
    by blast
  then have "int (count_year 1
       [\<lparr>year = 1, event_id = 7, day_of_year = 10, loss = 100\<rparr>,
        \<lparr>year = 2, event_id = 9, day_of_year = 30, loss = 200\<rparr>]) \<le> 1"
    by (rule spec)
  with n e show ?thesis by blast
qed

text \<open>
  C4 as stated fails: with \<open>n_loss = -1\<close> the records of a year are all but its last,
  here two of the three of year 1, more than \<open>n_loss\<close>.
\<close>

theorem apply_layer_occurrence_cap_counterexample:
  "apply_layer None 0 (Some (- 1)) False ex_capped =
     Inr [\<lparr>year = 1, event_id = 7, day_of_year = 10, loss = 100\<rparr>,
          \<lparr>year = 1, event_id = 8, day_of_year = 20, loss = 10\<rparr>]
   \<and> count_year 1
       [\<lparr>year = 1, event_id = 7, day_of_year = 10, loss = 100\<rparr>,
        \<lparr>year = 1, event_id = 8, day_of_year = 20, loss = 10\<rparr>] = 2
   \<and> \<not> (2::int) \<le> - 1"
  by (simp add: apply_layer_def ex_capped_def clip_upper_def clip_lower_def sort_index_def
      level_key_def groupby_head_def head_keeps_def count_year_def)

subsection \<open>Exceedance summaries\<close>

text \<open>
  C8. \<open>to_ep_summaries\<close> is to return the summaries side by side. It never does: when
  both per-year summaries have been computed, the call \<open>oep.renaem(...)\<close> raises
  AttributeError, whatever the table, the return periods, \<open>is_eef\<close> and the \<open>ylt\<close>
  accessor are.
\<close>

theorem to_ep_summaries_raises:
  "(\<nexists>summary. to_ep_summaries ylt_loss_at_rp return_periods is_eef t = Inr summary) \<and>
   to_ep_summaries ylt_loss_at_rp return_periods is_eef t =
     (case to_ep_summary ylt_loss_at_rp return_periods False t of
        Inl e \<Rightarrow> Inl e
      | Inr aep \<Rightarrow>
          (case to_ep_summary ylt_loss_at_rp return_periods True t of
             Inl e \<Rightarrow> Inl e
           | Inr oep \<Rightarrow> Inl (AttributeError msg_renaem)))"
  by (simp add: to_ep_summaries_def series_call_def msg_renaem_def split: sum.splits)

subsection \<open>Ranks and exceedance frequencies\<close>

lemma exfreq_map: "exfreq t = map (\<lambda>r. ef_of t (loss r)) (recs t)"
  by (simp add: exfreq_def ef_of_def)

lemma rank_desc_min_card:
  "rank_desc_min vs v = 1 + card {j. j < length vs \<and> vs ! j > v}"
  by (simp add: rank_desc_min_def length_filter_conv_card)

lemma rank_desc_min_mono:
  assumes "w \<le> v"
  shows "rank_desc_min vs v \<le> rank_desc_min vs w"
proof -
  have "length (filter (\<lambda>u. u > v) vs) \<le> length (filter (\<lambda>u. u > w) vs)"
    using assms by (induction vs) auto
  then show ?thesis by (simp add: rank_desc_min_def)
qed

lemma rank_desc_min_strict:
  assumes "w < v" and "v \<in> set vs"
  shows "rank_desc_min vs v < rank_desc_min vs w"
proof -
  have "length (filter (\<lambda>u. u > v) vs) < length (filter (\<lambda>u. u > w) vs)"
    using assms
  proof (induction vs)
    case Nil
    then show ?case by simp
  next
    case (Cons u us)
    have le: "length (filter (\<lambda>u. u > v) us) \<le> length (filter (\<lambda>u. u > w) us)"
      using rank_desc_min_mono [of w v us] Cons.prems(1) by (simp add: rank_desc_min_def)
    show ?case
    proof (cases "u = v")
      case True
      with le Cons.prems(1) show ?thesis by simp
    next
      case False
      with Cons have "length (filter (\<lambda>u. u > v) us) < length (filter (\<lambda>u. u > w) us)"
        by simp
      with Cons.prems(1) show ?thesis by auto
    qed
  qed
  then show ?thesis by (simp add: rank_desc_min_def)
qed

lemma rank_desc_min_Max:
  assumes "vs \<noteq> []"
  shows "rank_desc_min vs (Max (set vs)) = 1"
proof -
  have "filter (\<lambda>u. u > Max (set vs)) vs = []"
    by (auto simp: filter_empty_conv not_less)
  then show ?thesis by (simp add: rank_desc_min_def)
qed

lemma valid_n_yrs_pos:
  assumes "valid_yelt t" and "recs t \<noteq> []"
  shows "0 < n_yrs t"
proof -
  from assms(2) obtain r where "r \<in> set (recs t)"
    by (cases "recs t") auto
  with assms(1) have "1 \<le> year r" "year r \<le> n_yrs t"
    by (auto simp: valid_yelt_def)
  then show ?thesis by simp
qed

lemma ef_of_strict:
  assumes "0 < n_yrs t" and "w < v" and "v \<in> loss ` set (recs t)"
  shows "ef_of t v < ef_of t w"
proof -
  have "rank_desc_min (map loss (recs t)) v < rank_desc_min (map loss (recs t)) w"
    using assms(2,3) by (intro rank_desc_min_strict) auto
  then show ?thesis
    using assms(1) by (simp add: ef_of_def divide_strict_right_mono)
qed

subsection \<open>The sorted frame\<close>

lemma zip_map_self: "zip xs (map f xs) = map (\<lambda>x. (x, f x)) xs"
  by (induction xs) simp_all

lemma ef_sorted_rows: "ef_sorted t = sort_key ef_sort_key (map (\<lambda>r. (r, ef_of t (loss r))) (recs t))"
  by (simp add: ef_sorted_def exfreq_map zip_map_self)

lemma set_ef_sorted: "set (ef_sorted t) = (\<lambda>r. (r, ef_of t (loss r))) ` set (recs t)"
  by (simp add: ef_sorted_rows)

lemma mset_ef_sorted: "mset (ef_sorted t) = mset (zip (recs t) (exfreq t))"
  by (simp add: ef_sorted_def)

lemma ef_sort_key_le_iff: "ef_sort_key a \<le> ef_sort_key b \<longleftrightarrow> ef_before a b"
  by (auto simp: ef_sort_key_def ef_before_def)

lemma sorted_ef_sorted: "sorted_wrt ef_before (ef_sorted t)"
proof -
  have "sorted (map ef_sort_key (ef_sorted t))"
    by (simp add: ef_sorted_def)
  then show ?thesis
    by (simp add: sorted_map ef_sort_key_le_iff)
qed

lemma ef_before_loss: "ef_before a b \<Longrightarrow> loss (fst b) \<le> loss (fst a)"
  by (auto simp: ef_before_def)

lemma sorted_loss_ef_sorted:
  "sorted_wrt (\<lambda>a b. fst b \<le> fst a) (map drop_index (ef_sorted t))"
proof -
  have "sorted_wrt (\<lambda>a b. loss (fst b) \<le> loss (fst a)) (ef_sorted t)"
    using sorted_ef_sorted by (rule sorted_wrt_mono_rel [rotated]) (simp add: ef_before_loss)
  then show ?thesis
    by (simp add: sorted_wrt_map drop_index_def)
qed

subsection \<open>Dropping duplicates\<close>

lemma set_dedup_from: "set (dedup_from seen xs) = set xs - set seen"
  by (induction xs arbitrary: seen) auto

lemma distinct_dedup_from: "distinct (dedup_from seen xs)"
  by (induction xs arbitrary: seen) (auto simp: set_dedup_from)

lemma sorted_wrt_dedup_from: "sorted_wrt P xs \<Longrightarrow> sorted_wrt P (dedup_from seen xs)"
  by (induction xs arbitrary: seen) (auto simp: set_dedup_from)

lemma set_drop_duplicates: "set (drop_duplicates xs) = set xs"
  by (simp add: drop_duplicates_def set_dedup_from)

lemma distinct_drop_duplicates: "distinct (drop_duplicates xs)"
  by (simp add: drop_duplicates_def distinct_dedup_from)

lemma sorted_wrt_drop_duplicates: "sorted_wrt P xs \<Longrightarrow> sorted_wrt P (drop_duplicates xs)"
  by (simp add: drop_duplicates_def sorted_wrt_dedup_from)

lemma drop_duplicates_Nil_iff: "drop_duplicates xs = [] \<longleftrightarrow> xs = []"
  by (cases xs) (simp_all add: drop_duplicates_def)

subsection \<open>The curve\<close>

lemma set_plain_curve: "set (plain_curve t) = (\<lambda>r. (loss r, ef_of t (loss r))) ` set (recs t)"
  by (auto simp: plain_curve_def set_drop_duplicates set_ef_sorted drop_index_def image_image)

lemma plain_curve_Nil_iff: "plain_curve t = [] \<longleftrightarrow> recs t = []"
  using set_plain_curve [of t] by (metis image_is_empty set_empty)

lemma plain_curve_snd: "p \<in> set (plain_curve t) \<Longrightarrow> snd p = ef_of t (fst p)"
  by (auto simp: set_plain_curve)

lemma sorted_wrt_distinct_strict:
  assumes "sorted_wrt (\<lambda>a b. f b \<le> (f a :: real)) xs" and "distinct (map f xs)"
  shows "sorted_wrt (\<lambda>a b. f b < f a) xs"
  using assms
proof (induction xs)
  case Nil
  then show ?case by simp
next
  case (Cons a xs)
  have "f x < f a" if "x \<in> set xs" for x
  proof -
    have "f x \<le> f a" using Cons.prems(1) that by simp
    moreover have "f a \<notin> f ` set xs" using Cons.prems(2) by simp
    then have "f x \<noteq> f a" using that by (metis imageI)
    ultimately show ?thesis by simp
  qed
  with Cons show ?case by simp
qed

lemma distinct_fst_plain_curve: "distinct (map fst (plain_curve t))"
proof -
  have "inj_on fst (set (plain_curve t))"
    by (rule inj_onI) (metis plain_curve_snd prod_eqI)
  moreover have "distinct (plain_curve t)"
    by (simp add: plain_curve_def distinct_drop_duplicates)
  ultimately show ?thesis
    by (simp add: distinct_map)
qed

lemma loss_desc_plain_curve: "sorted_wrt (\<lambda>a b. fst b < fst a) (plain_curve t)"
proof -
  have "sorted_wrt (\<lambda>a b. fst b \<le> fst a) (plain_curve t)"
    unfolding plain_curve_def using sorted_loss_ef_sorted by (rule sorted_wrt_drop_duplicates)
  then show ?thesis
    using distinct_fst_plain_curve by (rule sorted_wrt_distinct_strict)
qed

lemma exfreq_asc_plain_curve:
  assumes "valid_yelt t"
  shows "sorted_wrt (\<lambda>a b. snd a < snd b) (plain_curve t)"
proof (cases "recs t = []")
  case True
  then have "plain_curve t = []" by (simp add: plain_curve_Nil_iff)
  then show ?thesis by simp
next
  case False
  with assms have n: "0 < n_yrs t" by (rule valid_n_yrs_pos)
  have "snd a < snd b"
    if "a \<in> set (plain_curve t)" "b \<in> set (plain_curve t)" "fst b < fst a" for a b
  proof -
    have "fst a \<in> loss ` set (recs t)"
      using that(1) by (auto simp: set_plain_curve)
    with n that(3) have "ef_of t (fst a) < ef_of t (fst b)"
      by (intro ef_of_strict)
    with that(1,2) show ?thesis
      by (simp add: plain_curve_snd)
  qed
  with loss_desc_plain_curve [of t] show ?thesis
    by (rule sorted_wrt_mono_rel [rotated]) 
qed

lemma exfreq_asc_ef_sorted:
  assumes "valid_yelt t"
  shows "sorted (map snd (ef_sorted t))"
proof (cases "recs t = []")
  case True
  then show ?thesis by (simp add: ef_sorted_rows)
next
  case False
  with assms have n: "0 < n_yrs t" by (rule valid_n_yrs_pos)
  have "snd a \<le> snd b"
    if "a \<in> set (ef_sorted t)" "b \<in> set (ef_sorted t)" "ef_before a b" for a b
  proof -
    have "rank_desc_min (map loss (recs t)) (loss (fst a))
        \<le> rank_desc_min (map loss (recs t)) (loss (fst b))"
      using that(3) by (intro rank_desc_min_mono ef_before_loss)
    then have "ef_of t (loss (fst a)) \<le> ef_of t (loss (fst b))"
      using n by (simp add: ef_of_def divide_right_mono)
    with that(1,2) show ?thesis
      by (auto simp: set_ef_sorted)
  qed
  with sorted_ef_sorted [of t] have "sorted_wrt (\<lambda>a b. snd a \<le> snd b) (ef_sorted t)"
    by (rule sorted_wrt_mono_rel [rotated])
  then show ?thesis
    by (simp add: sorted_map)
qed

subsection \<open>Interpolation\<close>

lemma interp_seg_on_curve:
  assumes "sorted_wrt (\<lambda>a b. snd a < snd b) rows" and "rows \<noteq> []"
    and "snd (hd rows) \<le> x" and "x \<le> snd (last rows)"
  shows "on_curve rows x (interp_seg x (map snd rows) (map fst rows))"
  using assms
proof (induction rows x y \<equiv> "0::real" rule: on_curve.induct)
  case (1 a b rows x)
  show ?case
  proof (cases "x < snd b")
    case True
    then show ?thesis
      using 1(3,4) by (auto simp: field_simps)
  next
    case False
    then have "on_curve (b # rows) x (interp_seg x (map snd (b # rows)) (map fst (b # rows)))"
      using 1 by simp
    with False show ?thesis by simp
  qed
next
  case (2 a x)
  then show ?case by simp
next
  case (3 x)
  then show ?case by simp
qed

lemma sorted_wrt_hd_Min:
  assumes "sorted_wrt (<) (xs :: real list)" and "xs \<noteq> []"
  shows "Min (set xs) = hd xs"
proof -
  from assms(2) obtain a rest where xs: "xs = a # rest" by (cases xs) auto
  show ?thesis
    using assms(1) unfolding xs by (intro Min_eqI) (auto intro: less_imp_le)
qed

lemma sorted_wrt_last_Max:
  assumes "sorted_wrt (<) (xs :: real list)" and "xs \<noteq> []"
  shows "Max (set xs) = last xs"
proof -
  from assms(2) have xs: "xs = butlast xs @ [last xs]" by simp
  have "sorted_wrt (<) (butlast xs @ [last xs])"
    using assms(1) xs by simp
  then have "\<forall>y \<in> set (butlast xs). y < last xs"
    by (simp add: sorted_wrt_append)
  moreover have "set xs = insert (last xs) (set (butlast xs))"
    using xs by (metis Un_insert_right append_Nil2 list.simps(15) set_append)
  ultimately show ?thesis
    by (intro Max_eqI) (auto intro: less_imp_le)
qed

lemma sorted_wrt_hd_Max_desc:
  assumes "sorted_wrt (\<lambda>a b. b < a) (xs :: real list)" and "xs \<noteq> []"
  shows "Max (set xs) = hd xs"
proof -
  from assms(2) obtain a rest where xs: "xs = a # rest" by (cases xs) auto
  show ?thesis
    using assms(1) unfolding xs by (intro Max_eqI) (auto intro: less_imp_le)
qed

subsection \<open>The call of \<open>loss_at_rp\<close>\<close>

lemma loss_at_rp_alloc:
  assumes "return_periods < length h"
  shows "loss_at_rp t return_periods h =
     (case plain_curve t of
        [] \<Rightarrow> (Inl (IndexError msg_iloc), h)
      | row # _ \<Rightarrow>
          (Inr (length h + 3),
           h @ [NdArray (elements (h ! return_periods)),
                NdArray (map invalid_to_nan (elements (h ! return_periods))),
                NdArray (map np_recip (map invalid_to_nan (elements (h ! return_periods)))),
                NdArray (np_interp
                  (map np_recip (map invalid_to_nan (elements (h ! return_periods))))
                  (col_ExFreq (plain_curve t)) (col_Loss (plain_curve t)) (fst row) 0)]))"
  using assms
  by (simp add: loss_at_rp_def Let_def np_array_def astype_float_def alloc_def
      assign_nan_where_le0_def col_Loss_def nth_append split: list.splits)

lemma loss_at_rp_values_eq:
  "loss_at_rp_values t rps =
     (case plain_curve t of
        [] \<Rightarrow> Inl (IndexError msg_iloc)
      | row # _ \<Rightarrow>
          Inr (np_interp (map target_freq rps) (col_ExFreq (plain_curve t))
                 (col_Loss (plain_curve t)) (fst row) 0))"
  by (simp add: loss_at_rp_values_def loss_at_rp_alloc target_freq_def [abs_def] comp_def
      split: list.splits)

lemma target_freq_simps:
  "rp \<le> 0 \<Longrightarrow> target_freq rp = NaN"
  "0 < rp \<Longrightarrow> target_freq rp = Val (1 / rp)"
  by (simp_all add: target_freq_def)

lemma max_loss_plain_curve:
  assumes "recs t \<noteq> []"
  shows "fst (hd (plain_curve t)) = Max (loss ` set (recs t))"
proof -
  have ne: "plain_curve t \<noteq> []"
    using assms by (simp add: plain_curve_Nil_iff)
  have "sorted_wrt (\<lambda>a b. b < a) (map fst (plain_curve t))"
    using loss_desc_plain_curve [of t] by (simp add: sorted_wrt_map)
  then have "Max (set (map fst (plain_curve t))) = hd (map fst (plain_curve t))"
    using ne by (intro sorted_wrt_hd_Max_desc) simp_all
  moreover have "set (map fst (plain_curve t)) = loss ` set (recs t)"
    by (simp add: set_plain_curve image_image)
  ultimately show ?thesis
    using ne by (simp add: hd_map)
qed

lemma loss_at_rp_values_ok:
  assumes "recs t \<noteq> []"
  shows "loss_at_rp_values t rps =
     Inr (np_interp (map target_freq rps) (col_ExFreq (plain_curve t))
            (col_Loss (plain_curve t)) (Max (loss ` set (recs t))) 0)"
proof -
  from assms obtain row rest where rows: "plain_curve t = row # rest"
    by (cases "plain_curve t") (auto simp: plain_curve_Nil_iff)
  then have "fst row = Max (loss ` set (recs t))"
    using max_loss_plain_curve [OF assms] by simp
  with rows show ?thesis
    by (simp add: loss_at_rp_values_eq)
qed

lemma interp1_Val:
  assumes "xp \<noteq> []" and "length fp = length xp"
  shows "interp1 (Val v) xp fp l r =
     (if v > last xp then Val r else if v < hd xp then Val l else Val (interp_seg v xp fp))"
proof (cases "length xp = 1")
  case True
  with assms obtain a b where "xp = [a]" "fp = [b]"
    by (cases xp; cases fp) auto
  then show ?thesis
    by (simp add: interp1_def np_less_def np_greater_def)
next
  case False
  then show ?thesis
    by (simp add: interp1_def)
qed

lemma interp1_NaN: "length xp \<noteq> 1 \<Longrightarrow> interp1 NaN xp fp l r = NaN"
  by (simp add: interp1_def)

lemma interp1_NaN_single: "interp1 NaN [a] (b # fp) l r = Val b"
  by (simp add: interp1_def np_less_def np_greater_def)

lemma interp1_cases:
  assumes asc: "sorted_wrt (\<lambda>a b. snd a < snd b) rows" and ne: "rows \<noteq> []"
  shows "rp \<le> 0 \<and> 2 \<le> length rows \<longrightarrow>
      interp1 (target_freq rp) (col_ExFreq rows) (col_Loss rows) l r = NaN"
    and "0 < rp \<and> 1 / rp < Min (set (col_ExFreq rows)) \<longrightarrow>
      interp1 (target_freq rp) (col_ExFreq rows) (col_Loss rows) l r = Val l"
    and "0 < rp \<and> Max (set (col_ExFreq rows)) < 1 / rp \<longrightarrow>
      interp1 (target_freq rp) (col_ExFreq rows) (col_Loss rows) l r = Val r"
    and "0 < rp \<and> Min (set (col_ExFreq rows)) \<le> 1 / rp \<and> 1 / rp \<le> Max (set (col_ExFreq rows))
      \<longrightarrow> (\<exists>y. interp1 (target_freq rp) (col_ExFreq rows) (col_Loss rows) l r = Val y \<and>
             on_curve rows (1 / rp) y)"
proof -
  let ?xp = "col_ExFreq rows"
  let ?fp = "col_Loss rows"
  have s: "sorted_wrt (<) ?xp"
    using asc by (simp add: col_ExFreq_def sorted_wrt_map)
  have xne: "?xp \<noteq> []"
    using ne by (simp add: col_ExFreq_def)
  have len: "length ?fp = length ?xp"
    by (simp add: col_ExFreq_def col_Loss_def)
  note V = interp1_Val [OF xne len]
  have mn: "Min (set ?xp) = hd ?xp"
    using s xne by (rule sorted_wrt_hd_Min)
  have mx: "Max (set ?xp) = last ?xp"
    using s xne by (rule sorted_wrt_last_Max)
  have le: "Min (set ?xp) \<le> Max (set ?xp)"
    using xne by simp
  show "rp \<le> 0 \<and> 2 \<le> length rows \<longrightarrow> interp1 (target_freq rp) ?xp ?fp l r = NaN"
    by (simp add: target_freq_simps interp1_NaN col_ExFreq_def)
  show "0 < rp \<and> 1 / rp < Min (set ?xp) \<longrightarrow> interp1 (target_freq rp) ?xp ?fp l r = Val l"
    using le unfolding mn mx by (auto simp: target_freq_simps V)
  show "0 < rp \<and> Max (set ?xp) < 1 / rp \<longrightarrow> interp1 (target_freq rp) ?xp ?fp l r = Val r"
    unfolding mn mx by (auto simp: target_freq_simps V)
  show "0 < rp \<and> Min (set ?xp) \<le> 1 / rp \<and> 1 / rp \<le> Max (set ?xp)
      \<longrightarrow> (\<exists>y. interp1 (target_freq rp) ?xp ?fp l r = Val y \<and> on_curve rows (1 / rp) y)"
  proof
    assume h: "0 < rp \<and> Min (set ?xp) \<le> 1 / rp \<and> 1 / rp \<le> Max (set ?xp)"
    then have lo: "snd (hd rows) \<le> 1 / rp" and hi: "1 / rp \<le> snd (last rows)"
      using ne unfolding mn mx by (simp_all add: col_ExFreq_def hd_map last_map)
    have "on_curve rows (1 / rp) (interp_seg (1 / rp) (map snd rows) (map fst rows))"
      using asc ne lo hi by (rule interp_seg_on_curve)
    moreover have "interp1 (target_freq rp) ?xp ?fp l r =
        Val (interp_seg (1 / rp) (map snd rows) (map fst rows))"
      using h unfolding mn mx
      by (auto simp: target_freq_simps V) (simp_all add: col_ExFreq_def col_Loss_def)
    ultimately show "\<exists>y. interp1 (target_freq rp) ?xp ?fp l r = Val y \<and>
             on_curve rows (1 / rp) y"
      by blast
  qed
qed

lemma length_plain_curve: "length (plain_curve t) = card (loss ` set (recs t))"
proof -
  have "card (set (map fst (plain_curve t))) = length (map fst (plain_curve t))"
    using distinct_fst_plain_curve by (rule distinct_card)
  moreover have "set (map fst (plain_curve t)) = loss ` set (recs t)"
    by (simp add: set_plain_curve image_image)
  ultimately show ?thesis by simp
qed

lemma min_exfreq_plain_curve:
  assumes "valid_yelt t" and "recs t \<noteq> []"
  shows "Min (set (col_ExFreq (plain_curve t))) = 1 / real_of_int (n_yrs t)"
proof -
  let ?rows = "plain_curve t"
  have ne: "?rows \<noteq> []"
    using assms(2) by (simp add: plain_curve_Nil_iff)
  have "sorted_wrt (<) (col_ExFreq ?rows)"
    using exfreq_asc_plain_curve [OF assms(1)] by (simp add: col_ExFreq_def sorted_wrt_map)
  then have "Min (set (col_ExFreq ?rows)) = hd (col_ExFreq ?rows)"
    using ne by (intro sorted_wrt_hd_Min) (simp_all add: col_ExFreq_def)
  also have "\<dots> = snd (hd ?rows)"
    using ne by (simp add: col_ExFreq_def hd_map)
  also have "\<dots> = ef_of t (fst (hd ?rows))"
    using ne by (intro plain_curve_snd) simp
  also have "\<dots> = ef_of t (Max (set (map loss (recs t))))"
    using max_loss_plain_curve [OF assms(2)] by simp
  also have "\<dots> = 1 / real_of_int (n_yrs t)"
    using assms(2) rank_desc_min_Max [of "map loss (recs t)"] by (simp add: ef_of_def)
  finally show ?thesis .
qed

lemma beyond_n_yrs:
  assumes "valid_yelt t" and "recs t \<noteq> []" and "real_of_int (n_yrs t) < rp"
  shows "0 < rp \<and> 1 / rp < Min (set (col_ExFreq (plain_curve t)))"
proof -
  have n: "0 < real_of_int (n_yrs t)"
    using valid_n_yrs_pos [OF assms(1,2)] by simp
  then have "0 < rp" using assms(3) by simp
  moreover have "1 / rp < 1 / real_of_int (n_yrs t)"
    using n assms(3) by (simp add: frac_less2)
  ultimately show ?thesis
    by (simp add: min_exfreq_plain_curve [OF assms(1,2)])
qed

text \<open>
  C1 (as amended). For every valid table with at least one record and every list of
  return periods, \<open>loss_at_rp\<close> returns as many floats as it was given, each the result
  of the call on that return period alone: for a return period \<open>\<le> 0\<close> NaN, when the
  table holds two or more different losses; for a return period \<open>> 0\<close> the largest
  loss of the table when \<open>1/rp\<close> lies below the smallest exceedance frequency of the
  curve, as it does for every return period larger than \<open>n_yrs\<close>; 0 when it lies above
  the largest; and else the loss on the piecewise linear curve of loss against
  exceedance frequency. (What a return period \<open>\<le> 0\<close> yields on a table whose losses
  are all the same is not part of the statement.)
\<close>

theorem loss_at_rp_entries:
  assumes "valid_yelt t" and "recs t \<noteq> []"
  shows "\<exists>out. loss_at_rp_values t rps = Inr out \<and> length out = length rps \<and>
     (\<forall>i<length rps.
        loss_at_rp_values t [rps ! i] = Inr [out ! i] \<and>
        (rps ! i \<le> 0 \<and> 2 \<le> card (loss ` set (recs t)) \<longrightarrow> out ! i = NaN) \<and>
        (0 < rps ! i \<and> 1 / rps ! i < Min (set (col_ExFreq (plain_curve t))) \<longrightarrow>
           out ! i = Val (Max (loss ` set (recs t)))) \<and>
        (real_of_int (n_yrs t) < rps ! i \<longrightarrow> out ! i = Val (Max (loss ` set (recs t)))) \<and>
        (0 < rps ! i \<and> Max (set (col_ExFreq (plain_curve t))) < 1 / rps ! i \<longrightarrow>
           out ! i = Val 0) \<and>
        (0 < rps ! i \<and> Min (set (col_ExFreq (plain_curve t))) \<le> 1 / rps ! i \<and>
           1 / rps ! i \<le> Max (set (col_ExFreq (plain_curve t))) \<longrightarrow>
           (\<exists>y. out ! i = Val y \<and> on_curve (plain_curve t) (1 / rps ! i) y)))"
proof -
  let ?rows = "plain_curve t"
  let ?m = "Max (loss ` set (recs t))"
  let ?f = "\<lambda>rp. interp1 (target_freq rp) (col_ExFreq ?rows) (col_Loss ?rows) ?m 0"
  have asc: "sorted_wrt (\<lambda>a b. snd a < snd b) ?rows"
    using assms(1) by (rule exfreq_asc_plain_curve)
  have ne: "?rows \<noteq> []"
    using assms(2) by (simp add: plain_curve_Nil_iff)
  have out: "loss_at_rp_values t rps = Inr (map ?f rps)" for rps
    using assms(2) by (simp add: loss_at_rp_values_ok np_interp_def)
  have "loss_at_rp_values t [rps ! i] = Inr [map ?f rps ! i]" if "i < length rps" for i
    using that by (simp add: out)
  moreover have "?f rp = Val ?m" if "real_of_int (n_yrs t) < rp" for rp
    using beyond_n_yrs [OF assms that] interp1_cases(2) [OF asc ne, of rp ?m 0] by blast
  ultimately show ?thesis
    using interp1_cases [OF asc ne, of _ ?m 0] out [of rps]
    by (intro exI [of _ "map ?f rps"]) (simp add: length_plain_curve)
qed

lemmas curve_eval = plain_curve_def ef_sorted_def exfreq_def rank_desc_min_def
  ef_sort_key_def drop_duplicates_def drop_index_def col_ExFreq_def col_Loss_def

lemma plain_curve_ex_yelt: "plain_curve ex_yelt = [(200, 1 / 10), (100, 1 / 5), (50, 3 / 10)]"
  by (simp add: curve_eval ex_yelt_def)

lemma ef_sorted_ex_ties:
  "ef_sorted ex_ties =
     [(\<lparr>year = 2, event_id = 8, day_of_year = 20, loss = 100\<rparr>, 1 / 10),
      (\<lparr>year = 1, event_id = 7, day_of_year = 10, loss = 100\<rparr>, 1 / 10),
      (\<lparr>year = 2, event_id = 9, day_of_year = 30, loss = 50\<rparr>, 3 / 10)]"
  by (simp add: curve_eval ex_ties_def)

lemma plain_curve_ex_ties: "plain_curve ex_ties = [(100, 1 / 10), (50, 3 / 10)]"
  by (simp add: plain_curve_def ef_sorted_ex_ties drop_duplicates_def drop_index_def)

lemma ex_ties_valid: "valid_yelt ex_ties"
  by (simp add: valid_yelt_def ex_ties_def rec_key_def)

theorem loss_at_rp_entries_witness:
  "valid_yelt ex_yelt \<and> recs ex_yelt \<noteq> [] \<and> 2 \<le> card (loss ` set (recs ex_yelt)) \<and>
   loss_at_rp_values ex_yelt [- 1, 1000, 1, 5, 4] = Inr [NaN, Val 200, Val 0, Val 100, Val 75] \<and>
   on_curve (plain_curve ex_yelt) (1 / 4) 75"
proof -
  have ne: "recs ex_yelt \<noteq> []"
    by (simp add: ex_yelt_def)
  have ev: "loss_at_rp_values ex_yelt [- 1, 1000, 1, 5, 4] =
      Inr [NaN, Val 200, Val 0, Val 100, Val 75]"
    by (simp add: loss_at_rp_values_eq plain_curve_ex_yelt np_interp_def interp1_def
        target_freq_def col_ExFreq_def col_Loss_def)
  from loss_at_rp_entries [OF ex_yelt_valid ne, of "[- 1, 1000, 1, 5, 4]"]
  have "0 < (4::real) \<and> Min (set (col_ExFreq (plain_curve ex_yelt))) \<le> 1 / 4 \<and>
           1 / 4 \<le> Max (set (col_ExFreq (plain_curve ex_yelt))) \<longrightarrow>
           (\<exists>y. Val 75 = Val y \<and> on_curve (plain_curve ex_yelt) (1 / 4) y)"
    unfolding ev by (auto dest!: spec [of _ 4])
  moreover have "Min (set (col_ExFreq (plain_curve ex_yelt))) \<le> 1 / 4"
    "1 / 4 \<le> Max (set (col_ExFreq (plain_curve ex_yelt)))"
    by (simp_all add: plain_curve_ex_yelt col_ExFreq_def)
  ultimately have "on_curve (plain_curve ex_yelt) (1 / 4) 75"
    by simp
  moreover have "2 \<le> card (loss ` set (recs ex_yelt))"
    by (simp add: ex_yelt_def)
  ultimately show ?thesis
    using ex_yelt_valid ne ev by simp
qed

text \<open>
  C1 as stated fails twice. A table without records passes the validator, and
  \<open>loss_at_rp\<close> on it raises IndexError at \<open>ef_curve['Loss'].iloc[0]\<close>. And on a
  table with a single loss the curve has one row, for which \<open>np.interp\<close> returns that
  loss for the return periods -3 and 0, where the docstring of \<open>loss_at_rp\<close> says NaN.
\<close>

theorem loss_at_rp_entries_counterexample:
  "valid_yelt ex_empty \<and> init (series_of ex_empty) = Inr (series_of ex_empty) \<and>
   loss_at_rp_values ex_empty [10] = Inl (IndexError msg_iloc) \<and>
   valid_yelt ex_single \<and> init (series_of ex_single) = Inr (series_of ex_single) \<and>
   loss_at_rp_values ex_single [- 3, 0] = Inr [Val 42, Val 42] \<and> Val 42 \<noteq> NaN"
proof -
  have v: "valid_yelt ex_empty"
    by (simp add: valid_yelt_def ex_empty_def)
  have e: "loss_at_rp_values ex_empty [10] = Inl (IndexError msg_iloc)"
    by (simp add: ex_empty_def loss_at_rp_values_eq curve_eval)
  have w: "valid_yelt ex_single"
    by (simp add: valid_yelt_def ex_single_def rec_key_def)
  have c: "plain_curve ex_single = [(42, 1 / 4)]"
    by (simp add: curve_eval ex_single_def)
  have f: "loss_at_rp_values ex_single [- 3, 0] = Inr [Val 42, Val 42]"
    by (simp add: loss_at_rp_values_eq c np_interp_def interp1_def np_less_def np_greater_def
        target_freq_def col_ExFreq_def col_Loss_def)
  from v e w f valid_yelt_accepted [OF v] valid_yelt_accepted [OF w] show ?thesis
    by simp
qed

subsection \<open>The caller's return periods\<close>

lemma loss_at_rp_values_any_heap:
  assumes "a < length h" and "h ! a = PyList rps"
  shows "(case loss_at_rp t a h of
            (Inl e, h') \<Rightarrow> Inl e
          | (Inr losses, h') \<Rightarrow> Inr (elements (h' ! losses))) = loss_at_rp_values t rps"
  using assms
  by (simp add: loss_at_rp_alloc loss_at_rp_values_eq target_freq_def [abs_def] comp_def
      nth_append split: list.splits)

text \<open>
  C10. \<open>loss_at_rp\<close> never changes the caller's \<open>return_periods\<close>: after the call the
  object at its address, like every object that existed before the call, is what it
  was, and the losses are a new array. Entries \<open>\<le> 0\<close> become NaN in a copy only.
\<close>

theorem loss_at_rp_keeps_argument:
  assumes "return_periods < length h"
  shows "snd (loss_at_rp t return_periods h) ! return_periods = h ! return_periods \<and>
     take (length h) (snd (loss_at_rp t return_periods h)) = h \<and>
     (\<forall>losses. fst (loss_at_rp t return_periods h) = Inr losses \<longrightarrow> length h \<le> losses)"
  using assms
  by (simp add: loss_at_rp_alloc nth_append split: list.splits)

theorem loss_at_rp_keeps_argument_witness:
  "0 < length ex_heap \<and> 1 < length ex_heap \<and>
   snd (loss_at_rp ex_yelt 0 ex_heap) ! 0 = PyList [- 1, 0, 5] \<and>
   fst (loss_at_rp ex_yelt 0 ex_heap) = Inr 5 \<and>
   elements (snd (loss_at_rp ex_yelt 0 ex_heap) ! 5) = [NaN, NaN, Val 100] \<and>
   snd (loss_at_rp ex_yelt 1 ex_heap) ! 1 = NdArray [Val (- 2), Val 4] \<and>
   elements (snd (loss_at_rp ex_yelt 1 ex_heap) ! 5) = [NaN, Val 75]"
proof -
  have l: "0 < length ex_heap" "1 < length ex_heap"
    by (simp_all add: ex_heap_def)
  have a: "snd (loss_at_rp ex_yelt 0 ex_heap) ! 0 = PyList [- 1, 0, 5]"
    using loss_at_rp_keeps_argument [OF l(1), of ex_yelt] by (simp add: ex_heap_def)
  have b: "snd (loss_at_rp ex_yelt 1 ex_heap) ! 1 = NdArray [Val (- 2), Val 4]"
    using loss_at_rp_keeps_argument [OF l(2), of ex_yelt] by (simp add: ex_heap_def)
  have c: "fst (loss_at_rp ex_yelt 0 ex_heap) = Inr 5"
    "elements (snd (loss_at_rp ex_yelt 0 ex_heap) ! 5) = [NaN, NaN, Val 100]"
    "elements (snd (loss_at_rp ex_yelt 1 ex_heap) ! 5) = [NaN, Val 75]"
    by (simp_all add: loss_at_rp_alloc l plain_curve_ex_yelt ex_heap_def np_interp_def
        interp1_def col_ExFreq_def col_Loss_def)
  from l a b c show ?thesis by simp
qed

subsection \<open>The curve is increasing in frequency\<close>

lemma exfreq_strict_ef_sorted:
  assumes "valid_yelt t" and "i < j" and "j < length (ef_sorted t)"
    and "loss (fst (ef_sorted t ! i)) \<noteq> loss (fst (ef_sorted t ! j))"
  shows "snd (ef_sorted t ! i) < snd (ef_sorted t ! j)"
proof -
  let ?S = "ef_sorted t"
  have i: "?S ! i \<in> set ?S" and j: "?S ! j \<in> set ?S"
    using assms(2,3) by simp_all
  then have ne: "recs t \<noteq> []"
    by (auto simp: set_ef_sorted)
  with assms(1) have n: "0 < n_yrs t"
    by (rule valid_n_yrs_pos)
  have "ef_before (?S ! i) (?S ! j)"
    using sorted_ef_sorted [of t] assms(2,3) by (simp add: sorted_wrt_iff_nth_less)
  then have "loss (fst (?S ! j)) < loss (fst (?S ! i))"
    using assms(4) ef_before_loss [of "?S ! i" "?S ! j"] by simp
  moreover have "loss (fst (?S ! i)) \<in> loss ` set (recs t)"
    using i by (auto simp: set_ef_sorted)
  ultimately have "ef_of t (loss (fst (?S ! i))) < ef_of t (loss (fst (?S ! j)))"
    using n by (intro ef_of_strict)
  then show ?thesis
    using i j by (auto simp: set_ef_sorted)
qed

text \<open>
  C6. For every valid table the ExFreq column of the curve of \<open>to_ef_curve\<close> does not
  decrease along the \<open>Order\<close> positions, and increases strictly from one loss value to
  the next smaller one; after the duplicates are dropped it increases strictly. These
  are the columns \<open>loss_at_rp\<close> hands to \<open>np.interp\<close> as sample points and values.
\<close>

theorem ef_curve_exfreq_increasing:
  assumes "valid_yelt t"
  shows "to_ef_curve True t = Indexed (ef_sorted t) \<and>
     sorted (map snd (ef_sorted t)) \<and>
     (\<forall>i j. i < j \<and> j < length (ef_sorted t) \<and>
         loss (fst (ef_sorted t ! i)) \<noteq> loss (fst (ef_sorted t ! j)) \<longrightarrow>
         snd (ef_sorted t ! i) < snd (ef_sorted t ! j)) \<and>
     to_ef_curve False t = Plain (plain_curve t) \<and>
     sorted (col_ExFreq (plain_curve t)) \<and>
     sorted_wrt (<) (col_ExFreq (plain_curve t)) \<and>
     distinct (col_Loss (plain_curve t)) \<and>
     (recs t \<noteq> [] \<longrightarrow>
        loss_at_rp_values t rps =
          Inr (np_interp (map target_freq rps) (col_ExFreq (plain_curve t))
                 (col_Loss (plain_curve t)) (Max (loss ` set (recs t))) 0))"
proof -
  have s: "sorted_wrt (<) (col_ExFreq (plain_curve t))"
    using exfreq_asc_plain_curve [OF assms] by (simp add: col_ExFreq_def sorted_wrt_map)
  then have "sorted (col_ExFreq (plain_curve t))"
    by (rule strict_sorted_imp_sorted)
  moreover have "distinct (col_Loss (plain_curve t))"
    using distinct_fst_plain_curve by (simp add: col_Loss_def)
  ultimately show ?thesis
    using s exfreq_asc_ef_sorted [OF assms] exfreq_strict_ef_sorted [OF assms]
      loss_at_rp_values_ok [of t rps]
    by (simp add: to_ef_curve_def)
qed

theorem ef_curve_exfreq_increasing_witness:
  "valid_yelt ex_ties \<and>
   to_ef_curve True ex_ties =
     Indexed [(\<lparr>year = 2, event_id = 8, day_of_year = 20, loss = 100\<rparr>, 1 / 10),
      (\<lparr>year = 1, event_id = 7, day_of_year = 10, loss = 100\<rparr>, 1 / 10),
      (\<lparr>year = 2, event_id = 9, day_of_year = 30, loss = 50\<rparr>, 3 / 10)] \<and>
   to_ef_curve False ex_ties = Plain [(100, 1 / 10), (50, 3 / 10)] \<and>
   sorted_wrt (<) [1 / 10, 3 / 10 :: real] \<and>
   recs ex_ties \<noteq> [] \<and>
   loss_at_rp_values ex_ties [5] = Inr [Val 75]"
proof -
  note T = ef_curve_exfreq_increasing [OF ex_ties_valid, of "[5]"]
  have ne: "recs ex_ties \<noteq> []"
    by (simp add: ex_ties_def)
  have a: "to_ef_curve True ex_ties =
     Indexed [(\<lparr>year = 2, event_id = 8, day_of_year = 20, loss = 100\<rparr>, 1 / 10),
      (\<lparr>year = 1, event_id = 7, day_of_year = 10, loss = 100\<rparr>, 1 / 10),
      (\<lparr>year = 2, event_id = 9, day_of_year = 30, loss = 50\<rparr>, 3 / 10)]"
    using T by (simp add: ef_sorted_ex_ties)
  have b: "to_ef_curve False ex_ties = Plain [(100, 1 / 10), (50, 3 / 10)]"
    using T by (simp add: plain_curve_ex_ties)
  have c: "sorted_wrt (<) [1 / 10, 3 / 10 :: real]"
    using T by (simp add: plain_curve_ex_ties col_ExFreq_def)
  have m: "Max (loss ` set (recs ex_ties)) = 100"
    by (simp add: ex_ties_def)
  have d: "loss_at_rp_values ex_ties [5] = Inr [Val 75]"
    using T ne
    by (simp add: m plain_curve_ex_ties col_ExFreq_def col_Loss_def np_interp_def interp1_def
        target_freq_def)
  from ex_ties_valid ne a b c d show ?thesis by simp
qed

subsection \<open>The rows of the curve\<close>

lemma exfreq_nth:
  assumes "i < length (recs t)"
  shows "exfreq t ! i =
     real (1 + card {j. j < length (recs t) \<and> loss (recs t ! i) < loss (recs t ! j)}) /
       real_of_int (n_yrs t)"
proof -
  have "{j. j < length (map loss (recs t)) \<and> map loss (recs t) ! j > loss (recs t ! i)} =
      {j. j < length (recs t) \<and> loss (recs t ! i) < loss (recs t ! j)}"
    by auto
  then show ?thesis
    using assms by (simp add: exfreq_def rank_desc_min_card)
qed

lemma exfreq_largest:
  assumes "i < length (recs t)" and "loss (recs t ! i) = Max (loss ` set (recs t))"
  shows "exfreq t ! i = 1 / real_of_int (n_yrs t)"
proof -
  have ne: "map loss (recs t) \<noteq> []"
    using assms(1) by auto
  have "rank_desc_min (map loss (recs t)) (Max (set (map loss (recs t)))) = 1"
    using ne by (rule rank_desc_min_Max)
  then show ?thesis
    using assms by (simp add: exfreq_def)
qed

lemma plain_curve_first_row:
  assumes "i < length (plain_curve t)"
  shows "\<exists>k<length (ef_sorted t). drop_index (ef_sorted t ! k) = plain_curve t ! i \<and>
     (\<forall>k'<k. fst (drop_index (ef_sorted t ! k')) \<noteq> fst (plain_curve t ! i))"
proof -
  let ?S = "ef_sorted t"
  let ?p = "plain_curve t ! i"
  let ?P = "\<lambda>k. k < length ?S \<and> fst (drop_index (?S ! k)) = fst ?p"
  have set: "set (plain_curve t) = drop_index ` set ?S"
    by (simp add: plain_curve_def set_drop_duplicates)
  have p: "?p \<in> set (plain_curve t)"
    using assms by simp
  then obtain k where "k < length ?S" "drop_index (?S ! k) = ?p"
    unfolding set by (auto simp: in_set_conv_nth)
  then have ex: "?P k" by simp
  define k0 where "k0 = (LEAST k. ?P k)"
  have k0: "?P k0"
    unfolding k0_def using ex by (rule LeastI)
  have least: "\<not> ?P k'" if "k' < k0" for k'
    using that not_less_Least unfolding k0_def by blast
  have "drop_index (?S ! k0) \<in> set (plain_curve t)"
    unfolding set using k0 by simp
  then have "snd (drop_index (?S ! k0)) = ef_of t (fst (drop_index (?S ! k0)))"
    by (rule plain_curve_snd)
  moreover have "snd ?p = ef_of t (fst ?p)"
    using p by (rule plain_curve_snd)
  ultimately have eq: "drop_index (?S ! k0) = ?p"
    using k0 by (simp add: prod_eq_iff)
  have "fst (drop_index (?S ! k')) \<noteq> fst ?p" if "k' < k0" for k'
    using least [OF that] that k0 by simp
  with k0 eq show ?thesis by blast
qed

text \<open>
  C5. \<open>to_ef_curve\<close> gives each record the exceedance frequency (number of strictly
  larger losses + 1) / \<open>n_yrs\<close>: rank 1 for the largest loss, equal losses sharing the
  smallest rank. The rows, each record with its frequency, are sorted by Loss
  descending, then ExFreq ascending, then Year descending, then DayOfYear descending.
  When \<open>keep_index\<close> is false the key columns are dropped and the first row of every
  loss value is kept, in the same order. The position of a row in the list is its
  zero-based \<open>Order\<close>.
\<close>

theorem to_ef_curve_rows:
  assumes "valid_yelt t"
  shows "length (exfreq t) = length (recs t) \<and>
    (\<forall>i<length (recs t). exfreq t ! i =
       real (1 + card {j. j < length (recs t) \<and> loss (recs t ! i) < loss (recs t ! j)}) /
         real_of_int (n_yrs t)) \<and>
    (\<forall>i<length (recs t). loss (recs t ! i) = Max (loss ` set (recs t)) \<longrightarrow>
       exfreq t ! i = 1 / real_of_int (n_yrs t)) \<and>
    (\<forall>i<length (recs t). \<forall>j<length (recs t).
       loss (recs t ! i) = loss (recs t ! j) \<longrightarrow> exfreq t ! i = exfreq t ! j) \<and>
    to_ef_curve True t = Indexed (ef_sorted t) \<and>
    mset (ef_sorted t) = mset (zip (recs t) (exfreq t)) \<and>
    sorted_wrt ef_before (ef_sorted t) \<and>
    (\<exists>rows. to_ef_curve False t = Plain rows \<and>
       set rows = drop_index ` set (ef_sorted t) \<and>
       distinct (map fst rows) \<and>
       sorted_wrt (\<lambda>a b. fst b < fst a) rows \<and>
       (\<forall>i<length rows. \<exists>k<length (ef_sorted t).
          drop_index (ef_sorted t ! k) = rows ! i \<and>
          (\<forall>k'<k. fst (drop_index (ef_sorted t ! k')) \<noteq> fst (rows ! i))))"
proof -
  have a: "length (exfreq t) = length (recs t)"
    by (simp add: exfreq_def)
  have b: "\<forall>i<length (recs t). \<forall>j<length (recs t).
       loss (recs t ! i) = loss (recs t ! j) \<longrightarrow> exfreq t ! i = exfreq t ! j"
    by (simp add: exfreq_map)
  have c: "to_ef_curve True t = Indexed (ef_sorted t)"
    "to_ef_curve False t = Plain (plain_curve t)"
    by (simp_all add: to_ef_curve_def)
  have d: "set (plain_curve t) = drop_index ` set (ef_sorted t)"
    by (simp add: plain_curve_def set_drop_duplicates)
  from a b c d exfreq_nth [of _ t] exfreq_largest [of _ t] mset_ef_sorted [of t]
    sorted_ef_sorted [of t] distinct_fst_plain_curve [of t] loss_desc_plain_curve [of t]
    plain_curve_first_row [of _ t]
  show ?thesis
    by (intro conjI exI [of _ "plain_curve t"]) blast+
qed

theorem to_ef_curve_rows_witness:
  "valid_yelt ex_ties \<and>
   exfreq ex_ties = [1 / 10, 1 / 10, 3 / 10] \<and>
   to_ef_curve True ex_ties =
     Indexed [(\<lparr>year = 2, event_id = 8, day_of_year = 20, loss = 100\<rparr>, 1 / 10),
      (\<lparr>year = 1, event_id = 7, day_of_year = 10, loss = 100\<rparr>, 1 / 10),
      (\<lparr>year = 2, event_id = 9, day_of_year = 30, loss = 50\<rparr>, 3 / 10)] \<and>
   to_ef_curve False ex_ties = Plain [(100, 1 / 10), (50, 3 / 10)] \<and>
   sorted_wrt ef_before
     [(\<lparr>year = 2, event_id = 8, day_of_year = 20, loss = 100\<rparr>, 1 / 10),
      (\<lparr>year = 1, event_id = 7, day_of_year = 10, loss = 100\<rparr>, 1 / 10),
      (\<lparr>year = 2, event_id = 9, day_of_year = 30, loss = 50\<rparr>, 3 / 10)]"
proof -
  note T = to_ef_curve_rows [OF ex_ties_valid]
  have a: "exfreq ex_ties = [1 / 10, 1 / 10, 3 / 10]"
    by (simp add: exfreq_def rank_desc_min_def ex_ties_def)
  have b: "to_ef_curve True ex_ties =
     Indexed [(\<lparr>year = 2, event_id = 8, day_of_year = 20, loss = 100\<rparr>, 1 / 10),
      (\<lparr>year = 1, event_id = 7, day_of_year = 10, loss = 100\<rparr>, 1 / 10),
      (\<lparr>year = 2, event_id = 9, day_of_year = 30, loss = 50\<rparr>, 3 / 10)]"
    using T by (simp add: ef_sorted_ex_ties)
  have c: "to_ef_curve False ex_ties = Plain [(100, 1 / 10), (50, 3 / 10)]"
    by (simp add: to_ef_curve_def plain_curve_ex_ties)
  have d: "sorted_wrt ef_before (ef_sorted ex_ties)"
    using T by blast
  from ex_ties_valid a b c d show ?thesis
    by (simp add: ef_sorted_ex_ties)
qed

end
